theory Spec2Isabelle
  imports Complex_Main
begin

section \<open>Cells, errors and timestamps\<close>

text \<open>
  A float64 cell of a pandas frame is a \<open>real option\<close>: \<open>None\<close> is NaN (the
  "missing" marker), \<open>Some x\<close> a number. Arithmetic is the arithmetic of the reals;
  rounding is not modelled. An index label (a \<open>pd.Timestamp\<close>) is an \<open>int\<close>, the
  number of seconds since 1970-01-01 00:00:00.
\<close>

type_synonym cell = "real option"

text \<open>
  The exceptions the modelled code can raise: \<open>KeyError\<close> (a dictionary or a label
  lookup that misses) and \<open>IndexError\<close> (\<open>.iloc[0]\<close> on an empty selection).
  \<open>EmptySeriesError\<close> is a name of the specification's error taxonomy; no path of
  the source raises it.
\<close>

datatype error = KeyError | IndexError | EmptySeriesError

text \<open>NaN-propagating subtraction, multiplication and comparison of cells.\<close>

definition fsub :: "cell \<Rightarrow> cell \<Rightarrow> cell" where
  "fsub a b = (case a of None \<Rightarrow> None | Some x \<Rightarrow> (case b of None \<Rightarrow> None | Some y \<Rightarrow> Some (x - y)))"

definition fmul :: "cell \<Rightarrow> real \<Rightarrow> cell" where
  "fmul a k = (case a of None \<Rightarrow> None | Some x \<Rightarrow> Some (x * k))"

definition flt :: "cell \<Rightarrow> real \<Rightarrow> bool" where
  "flt a k = (case a of None \<Rightarrow> False | Some x \<Rightarrow> x < k)"

definition isna :: "cell \<Rightarrow> bool" where
  "isna a = (a = None)"

text \<open>\<open>x[np.isnan(x)] = 0\<close> on one cell.\<close>

definition fillna0 :: "cell \<Rightarrow> cell" where
  "fillna0 a = (case a of None \<Rightarrow> Some 0 | Some x \<Rightarrow> Some x)"

text \<open>
  \<open>pd.to_datetime('YYYY-MM-DD')\<close>: midnight of a civil date, in seconds since the
  epoch (the proleptic Gregorian day count, times 86400).
\<close>

definition days_from_civil :: "int \<Rightarrow> int \<Rightarrow> int \<Rightarrow> int" where
  "days_from_civil y m d =
     (let y' = (if m \<le> 2 then y - 1 else y);
          era = y' div 400;
          yoe = y' - era * 400;
          doy = (153 * (if 2 < m then m - 3 else m + 9) + 2) div 5 + d - 1;
          doe = yoe * 365 + yoe div 4 - yoe div 100 + doy
      in era * 146097 + doe - 719468)"

definition to_datetime :: "int \<Rightarrow> int \<Rightarrow> int \<Rightarrow> int" where
  "to_datetime y m d = 86400 * days_from_civil y m d"

section \<open>process\_tilt.py: the geometry conversion\<close>

text \<open>The per-site mechanical constants, in millimetres.\<close>

definition arm_length :: "string \<rightharpoonup> real" where
  "arm_length = map_of
     [(''site_1'', 1470), (''site_2'', 1490), (''site_3'', 1520),
      (''site_4'', 1575), (''site_5'', 1590), (''site_6'', 1750)]"

definition pivot_height :: "string \<rightharpoonup> real" where
  "pivot_height = map_of
     [(''site_1'', 120), (''site_2'', 140), (''site_3'', 140),
      (''site_4'', 385), (''site_5'', 495), (''site_6'', 360)]"

text \<open>\<open>np.sqrt\<close> on a real: NaN below zero (HOL's \<open>sqrt\<close> is odd there).\<close>

definition np_sqrt :: "real \<Rightarrow> cell" where
  "np_sqrt x = (if x < 0 then None else Some (sqrt x))"

text \<open>
  The body of \<open>convertAngles\<close> on one angle, for an arm of length \<open>L\<close> and a pivot
  of height \<open>P\<close>: \<open>dYL\<close>, \<open>dX\<close>, \<open>dYP\<close> and \<open>dY\<close> as the source names them.
\<close>

definition deflection :: "real \<Rightarrow> real \<Rightarrow> bool \<Rightarrow> real \<Rightarrow> cell" where
  "deflection L P flip angle =
     (let dYL = sin angle * L;
          dYL = (if flip then - 1 * dYL else dYL);
          dX = (1 - cos angle) * L
      in case np_sqrt (P\<^sup>2 - dX\<^sup>2) of
           None \<Rightarrow> None
         | Some dYP \<Rightarrow> Some (dYL + dYP))"

text \<open>
  \<open>convertAngles(angle_rads, site, flip)\<close> over a column of angles. The two
  dictionary lookups raise \<open>KeyError\<close> for a site that is not in the tables; a NaN
  angle stays NaN. The tables are arguments here so that the conversion can be stated
  for any arm and pivot; \<open>convertAngles\<close> is the source's function, on its own tables.
\<close>

definition convertAngles_on ::
  "(string \<rightharpoonup> real) \<Rightarrow> (string \<rightharpoonup> real) \<Rightarrow> cell list \<Rightarrow> string \<Rightarrow> bool \<Rightarrow> error + cell list" where
  "convertAngles_on arm pivot angle_rads site flip =
     (case arm site of
        None \<Rightarrow> Inl KeyError
      | Some L \<Rightarrow>
          (case pivot site of
             None \<Rightarrow> Inl KeyError
           | Some P \<Rightarrow>
               Inr (map (\<lambda>a. case a of None \<Rightarrow> None | Some angle \<Rightarrow> deflection L P flip angle)
                      angle_rads)))"

definition convertAngles :: "cell list \<Rightarrow> string \<Rightarrow> bool \<Rightarrow> error + cell list" where
  "convertAngles = convertAngles_on arm_length pivot_height"

section \<open>process\_tilt.py: the deflection processor\<close>

text \<open>The analysis period of \<open>process_tilt.py\<close>.\<close>

definition start_date :: int where
  "start_date = to_datetime 2018 8 27"

definition end_date :: int where
  "end_date = to_datetime 2023 8 1"

text \<open>
  A row of the frame \<open>importData\<close> returns (index and the three columns), a row of
  the frame \<open>out\<close> while it has two columns, and a row of the returned frame.
\<close>

record tilt_row =
  t_idx :: int
  angle_1 :: cell
  angle_2 :: cell
  logger_temp_c :: cell

record out_row =
  o_idx :: int
  o_logger_temp_c :: cell
  o_h1_mm :: cell

record defl_row =
  d_idx :: int
  d_logger_temp_c :: cell
  h1_mm :: cell
  dh1_mm :: cell

text \<open>\<open>out[out.isna()] = 0\<close>: every NaN of both columns becomes zero.\<close>

definition fill_zero :: "out_row list \<Rightarrow> out_row list" where
  "fill_zero out =
     map (\<lambda>r. r\<lparr>o_logger_temp_c := fillna0 (o_logger_temp_c r), o_h1_mm := fillna0 (o_h1_mm r)\<rparr>) out"

text \<open>
  \<open>out.sort_index()\<close>. pandas does not promise an order among equal labels; the
  model keeps them in their order (the frames \<open>merge_datasets.py\<close> writes have no
  equal labels).
\<close>

definition sort_index :: "out_row list \<Rightarrow> out_row list" where
  "sort_index out = sort_key o_idx out"

text \<open>The two \<open>out.loc[...]\<close> selections: both bounds are inclusive.\<close>

definition truncate_period :: "out_row list \<Rightarrow> out_row list" where
  "truncate_period out =
     filter (\<lambda>r. o_idx r \<le> end_date) (filter (\<lambda>r. start_date \<le> o_idx r) out)"

text \<open>
  \<open>out.h1_mm.loc[out.logger_temp_c < -35] = np.nan\<close>. The assignment goes through
  the column \<open>out.h1_mm\<close>; it is taken to write into \<open>out\<close>, as it does in pandas
  without copy-on-write (the same holds for the like assignments of
  \<open>process_snow.py\<close>).
\<close>

definition drop_cold :: "out_row list \<Rightarrow> out_row list" where
  "drop_cold out = map (\<lambda>r. if flt (o_logger_temp_c r) (- 35) then r\<lparr>o_h1_mm := None\<rparr> else r) out"

text \<open>
  \<open>col.loc[~col.isnull()].iloc[0]\<close>: the first cell that is not NaN;
  \<open>IndexError\<close> when there is none.
\<close>

fun first_valid :: "cell list \<Rightarrow> error + real" where
  "first_valid [] = Inl IndexError"
| "first_valid (None # xs) = first_valid xs"
| "first_valid (Some v # xs) = Inr v"

text \<open>
  \<open>processData\<close> from the imported frame \<open>data\<close> and the site name (the source
  reads both from the file path; reading the file is outside the model). The stages
  are in the order of the source: conversion, zero fill, sort, truncation, cold
  filter, baseline.
\<close>

definition processData :: "tilt_row list \<Rightarrow> string \<Rightarrow> error + defl_row list" where
  "processData data site =
     (case convertAngles (map angle_1 data) site False of
        Inl e \<Rightarrow> Inl e
      | Inr h1 \<Rightarrow>
          (let out = map (\<lambda>(r, h). \<lparr>o_idx = t_idx r, o_logger_temp_c = logger_temp_c r, o_h1_mm = h\<rparr>)
                       (zip data h1);
               out = fill_zero out;
               out = sort_index out;
               out = truncate_period out;
               out = drop_cold out
           in case first_valid (map o_h1_mm out) of
                Inl e \<Rightarrow> Inl e
              | Inr b \<Rightarrow>
                  Inr (map (\<lambda>r. \<lparr>d_idx = o_idx r, d_logger_temp_c = o_logger_temp_c r,
                                   h1_mm = o_h1_mm r, dh1_mm = fsub (o_h1_mm r) (Some b)\<rparr>) out)))"

text \<open>
  The stages in the order the specification lists them, for comparison: conversion,
  cold filter, zero fill, baseline over the whole series, truncation, sort.
\<close>

definition processData_listed_order :: "tilt_row list \<Rightarrow> string \<Rightarrow> error + defl_row list" where
  "processData_listed_order data site =
     (case convertAngles (map angle_1 data) site False of
        Inl e \<Rightarrow> Inl e
      | Inr h1 \<Rightarrow>
          (let out = map (\<lambda>(r, h). \<lparr>o_idx = t_idx r, o_logger_temp_c = logger_temp_c r, o_h1_mm = h\<rparr>)
                       (zip data h1);
               out = drop_cold out;
               out = fill_zero out
           in case first_valid (map o_h1_mm out) of
                Inl e \<Rightarrow> Inl e
              | Inr b \<Rightarrow>
                  Inr (map (\<lambda>r. \<lparr>d_idx = o_idx r, d_logger_temp_c = o_logger_temp_c r,
                                   h1_mm = o_h1_mm r, dh1_mm = fsub (o_h1_mm r) (Some b)\<rparr>)
                         (sort_index (truncate_period out)))))"

text \<open>
  Names for the proofs: the converted row, the frame \<open>out\<close> just before the baseline
  is taken (for a site whose constants are \<open>L\<close> and \<open>P\<close>), the returned row for a
  baseline \<open>b\<close>, the analysis period, and the row of \<open>out\<close> that an imported row
  inside the period ends as.
\<close>

definition converted :: "real \<Rightarrow> real \<Rightarrow> tilt_row \<Rightarrow> out_row" where
  "converted L P r =
     \<lparr>o_idx = t_idx r, o_logger_temp_c = logger_temp_c r,
      o_h1_mm = (case angle_1 r of None \<Rightarrow> None | Some a \<Rightarrow> deflection L P False a)\<rparr>"

definition prepared :: "real \<Rightarrow> real \<Rightarrow> tilt_row list \<Rightarrow> out_row list" where
  "prepared L P data =
     drop_cold (truncate_period (sort_index (fill_zero (map (converted L P) data))))"

definition relative :: "real \<Rightarrow> out_row \<Rightarrow> defl_row" where
  "relative b r =
     \<lparr>d_idx = o_idx r, d_logger_temp_c = o_logger_temp_c r,
      h1_mm = o_h1_mm r, dh1_mm = fsub (o_h1_mm r) (Some b)\<rparr>"

definition in_period :: "int \<Rightarrow> bool" where
  "in_period t = (start_date \<le> t \<and> t \<le> end_date)"

definition final_row :: "real \<Rightarrow> real \<Rightarrow> tilt_row \<Rightarrow> out_row" where
  "final_row L P s =
     \<lparr>o_idx = t_idx s, o_logger_temp_c = fillna0 (logger_temp_c s),
      o_h1_mm = (if flt (fillna0 (logger_temp_c s)) (- 35) then None
                 else fillna0 (case angle_1 s of None \<Rightarrow> None | Some a \<Rightarrow> deflection L P False a))\<rparr>"

text \<open>Example frames for the deflection processor.\<close>

definition tilt_example :: "tilt_row list" where
  "tilt_example =
     [\<lparr>t_idx = to_datetime 2019 1 3, angle_1 = None, angle_2 = None, logger_temp_c = None\<rparr>,
      \<lparr>t_idx = to_datetime 2019 1 1, angle_1 = Some 0, angle_2 = None, logger_temp_c = Some (- 40)\<rparr>,
      \<lparr>t_idx = to_datetime 2019 1 2, angle_1 = Some 0, angle_2 = None, logger_temp_c = Some (- 34)\<rparr>]"

definition tilt_example_out :: "defl_row list" where
  "tilt_example_out =
     [\<lparr>d_idx = to_datetime 2019 1 1, d_logger_temp_c = Some (- 40), h1_mm = None, dh1_mm = None\<rparr>,
      \<lparr>d_idx = to_datetime 2019 1 2, d_logger_temp_c = Some (- 34), h1_mm = Some 120, dh1_mm = Some 0\<rparr>,
      \<lparr>d_idx = to_datetime 2019 1 3, d_logger_temp_c = Some 0, h1_mm = Some 0, dh1_mm = Some (- 120)\<rparr>]"

definition tilt_early :: "tilt_row list" where
  "tilt_early =
     [\<lparr>t_idx = to_datetime 2018 1 1, angle_1 = Some 0, angle_2 = None, logger_temp_c = Some 0\<rparr>,
      \<lparr>t_idx = to_datetime 2019 1 1, angle_1 = None, angle_2 = None, logger_temp_c = Some 0\<rparr>]"

definition tilt_cold :: "tilt_row list" where
  "tilt_cold =
     [\<lparr>t_idx = to_datetime 2019 1 1, angle_1 = Some 0, angle_2 = None, logger_temp_c = Some (- 40)\<rparr>]"

section \<open>process\_snow.py: the heave correction\<close>

text \<open>
  A pandas \<open>Series\<close> of floats: index labels and cells. The frames of this file are
  the output of \<open>resample('D')\<close>, so their labels are unique; a lookup by label
  (\<open>map_of\<close>) takes the first row of a label.
\<close>

type_synonym series = "(int \<times> cell) list"

text \<open>
  A row of the snow frame \<open>sdf\<close>. The columns \<open>snow_sub_heave\<close> and \<open>heave_cm\<close> do
  not exist in the frame \<open>processData\<close> of \<open>process_snow.py\<close> returns; the heave
  correction creates them and never reads what they held, so for a frame without them
  their cells are \<open>None\<close>.
\<close>

record snow_row =
  s_idx :: int
  snow_depth_cm :: cell
  snow_sub_heave :: cell
  heave_cm :: cell

text \<open>A row of \<open>sdf_copy\<close>: the columns the loop reads.\<close>

record copy_row =
  c_idx :: int
  c_snow_depth_cm :: cell
  c_dh1_mm :: cell

text \<open>
  The dictionary \<open>snow_on_ground\<close>, in its insertion order: the year key, the first
  and the last date of the snow cover.
\<close>

type_synonym window = "string \<times> int \<times> int"

definition w_year :: "window \<Rightarrow> string" where
  "w_year w = fst w"

definition w_start :: "window \<Rightarrow> int" where
  "w_start w = fst (snd w)"

definition w_end :: "window \<Rightarrow> int" where
  "w_end w = snd (snd w)"

definition snow_on_ground :: "window list" where
  "snow_on_ground =
     [(''2019'', to_datetime 2019 10 5, to_datetime 2020 5 23),
      (''2020'', to_datetime 2020 10 9, to_datetime 2021 5 14),
      (''2021'', to_datetime 2021 9 27, to_datetime 2022 5 10),
      (''2022'', to_datetime 2022 9 27, to_datetime 2023 6 1)]"

text \<open>\<open>col.loc[label]\<close>: the cell of a label, \<open>KeyError\<close> when no row has it.\<close>

definition loc_label :: "series \<Rightarrow> int \<Rightarrow> error + cell" where
  "loc_label col k = (case map_of col k of None \<Rightarrow> Inl KeyError | Some v \<Rightarrow> Inr v)"

text \<open>
  \<open>sdf_copy\<close> with its column \<open>dh1_mm\<close>: for every label of \<open>sdf\<close> that the tilt
  frame has, the tilt frame's \<open>dh1_mm\<close>; NaN elsewhere. The tilt frame \<open>tdf\<close> is
  the column \<open>dh1_mm\<close> of the processed inclinometer file.
\<close>

definition make_copy :: "series \<Rightarrow> snow_row list \<Rightarrow> copy_row list" where
  "make_copy tdf sdf =
     map (\<lambda>r. \<lparr>c_idx = s_idx r, c_snow_depth_cm = snow_depth_cm r,
                c_dh1_mm = (case map_of tdf (s_idx r) of None \<Rightarrow> None | Some v \<Rightarrow> v)\<rparr>) sdf"

text \<open>The rows of one season: half open, and cut short for site 2 in 2019.\<close>

definition season :: "copy_row list \<Rightarrow> string \<Rightarrow> window \<Rightarrow> copy_row list" where
  "season sdf_copy site w =
     (let s = filter (\<lambda>c. w_start w \<le> c_idx c) sdf_copy;
          s = filter (\<lambda>c. c_idx c < w_end w) s
      in if site = ''site_2'' \<and> w_year w = ''2019''
         then filter (\<lambda>c. c_idx c < to_datetime 2020 4 12) s
         else s)"

text \<open>
  The \<open>try\<close> block: both columns of the season minus their cell at the season's first
  date; when a lookup raises, the \<open>except\<close> branch takes the columns as they are.
\<close>

definition corrected :: "copy_row list \<Rightarrow> int \<Rightarrow> series \<times> series" where
  "corrected s start =
     (let sd = map (\<lambda>c. (c_idx c, c_snow_depth_cm c)) s;
          dh = map (\<lambda>c. (c_idx c, c_dh1_mm c)) s
      in case loc_label sd start of
           Inl e \<Rightarrow> (sd, dh)
         | Inr s0 \<Rightarrow>
             (case loc_label dh start of
                Inl e \<Rightarrow> (sd, dh)
              | Inr d0 \<Rightarrow> (map (\<lambda>(i, v). (i, fsub v s0)) sd, map (\<lambda>(i, v). (i, fsub v d0)) dh)))"

text \<open>\<open>a - b\<close> on two series, aligned by label.\<close>

definition series_sub :: "series \<Rightarrow> series \<Rightarrow> series" where
  "series_sub a b =
     map (\<lambda>(i, v). (i, fsub v (case map_of b i of None \<Rightarrow> None | Some u \<Rightarrow> u))) a"

text \<open>
  The body of the loop over the seasons, for one season: the three assignments into
  \<open>sdf\<close> (the first two at the labels of the season, the third to the whole column,
  NaN where the season has no label) and the invalidation of the rows whose snow depth
  is negative.
\<close>

definition heave_window :: "copy_row list \<Rightarrow> string \<Rightarrow> snow_row list \<Rightarrow> window \<Rightarrow> snow_row list" where
  "heave_window sdf_copy site sdf w =
     (let (corrected_sd, corrected_dh) = corrected (season sdf_copy site w) (w_start w);
          dh_copy = map (\<lambda>(i, v). (i, fillna0 (fmul v 0.1))) corrected_dh;
          sub = series_sub corrected_sd dh_copy;
          sdf = map (\<lambda>r. case map_of corrected_sd (s_idx r) of
                             None \<Rightarrow> r | Some v \<Rightarrow> r\<lparr>snow_depth_cm := v\<rparr>) sdf;
          sdf = map (\<lambda>r. case map_of sub (s_idx r) of
                             None \<Rightarrow> r | Some v \<Rightarrow> r\<lparr>snow_sub_heave := v\<rparr>) sdf;
          sdf = map (\<lambda>r. r\<lparr>heave_cm := (case map_of corrected_dh (s_idx r) of
                                               None \<Rightarrow> None | Some v \<Rightarrow> fmul v 0.1)\<rparr>) sdf
      in map (\<lambda>r. if flt (snow_depth_cm r) 0
                    then r\<lparr>snow_depth_cm := None, snow_sub_heave := None, heave_cm := None\<rparr>
                    else r) sdf)"

text \<open>
  \<open>correct_for_heave\<close> for a table of seasons: the copy, the two columns set to NaN,
  the loop. The source runs it on \<open>snow_on_ground\<close>. It returns the frame it was
  given, changed in place: a second call on the same frame starts from the result of
  the first.
\<close>

definition correct_for_heave_on ::
  "window list \<Rightarrow> series \<Rightarrow> snow_row list \<Rightarrow> string \<Rightarrow> snow_row list" where
  "correct_for_heave_on windows tdf sdf site =
     (let sdf_copy = make_copy tdf sdf;
          sdf = map (\<lambda>r. r\<lparr>snow_depth_cm := None\<rparr>) sdf;
          sdf = map (\<lambda>r. r\<lparr>snow_sub_heave := None\<rparr>) sdf
      in foldl (heave_window sdf_copy site) sdf windows)"

definition correct_for_heave :: "series \<Rightarrow> snow_row list \<Rightarrow> string \<Rightarrow> snow_row list" where
  "correct_for_heave = correct_for_heave_on snow_on_ground"

text \<open>
  Names for the proofs. \<open>in_season\<close> is the membership test of \<open>season\<close>;
  \<open>windows_disjoint\<close> says that two different seasons of a table do not overlap;
  \<open>season_depth\<close> and \<open>season_heave\<close> are \<open>corrected_sd\<close> and \<open>corrected_dh\<close> of a
  season, looked up at a label; \<open>heave_row\<close> is what one pass of the loop does to one
  row of \<open>sdf\<close>, \<open>heave_final\<close> what the whole loop does to it, and
  \<open>drop_negative\<close> the cell that is left of a snow depth after the invalidation.
\<close>

definition in_season :: "string \<Rightarrow> window \<Rightarrow> int \<Rightarrow> bool" where
  "in_season site w t =
     (w_start w \<le> t \<and> t < w_end w
      \<and> (if site = ''site_2'' \<and> w_year w = ''2019'' then t < to_datetime 2020 4 12 else True))"

definition windows_disjoint :: "window list \<Rightarrow> bool" where
  "windows_disjoint ws = (\<forall>w\<in>set ws. \<forall>v\<in>set ws. w = v \<or> w_end w \<le> w_start v \<or> w_end v \<le> w_start w)"

definition season_depth :: "copy_row list \<Rightarrow> string \<Rightarrow> window \<Rightarrow> int \<Rightarrow> cell option" where
  "season_depth sdf_copy site w = map_of (fst (corrected (season sdf_copy site w) (w_start w)))"

definition season_heave :: "copy_row list \<Rightarrow> string \<Rightarrow> window \<Rightarrow> int \<Rightarrow> cell option" where
  "season_heave sdf_copy site w = map_of (snd (corrected (season sdf_copy site w) (w_start w)))"

definition invalidate :: "snow_row \<Rightarrow> snow_row" where
  "invalidate r =
     (if flt (snow_depth_cm r) 0
      then r\<lparr>snow_depth_cm := None, snow_sub_heave := None, heave_cm := None\<rparr>
      else r)"

definition heave_row :: "copy_row list \<Rightarrow> string \<Rightarrow> window \<Rightarrow> snow_row \<Rightarrow> snow_row" where
  "heave_row sdf_copy site w r =
     (case season_depth sdf_copy site w (s_idx r) of
        None \<Rightarrow> invalidate (r\<lparr>heave_cm := None\<rparr>)
      | Some v \<Rightarrow>
          (case season_heave sdf_copy site w (s_idx r) of
             None \<Rightarrow> invalidate (r\<lparr>heave_cm := None\<rparr>)
           | Some d \<Rightarrow>
               invalidate (r\<lparr>snow_depth_cm := v, snow_sub_heave := fsub v (fillna0 (fmul d 0.1)),
                             heave_cm := fmul d 0.1\<rparr>)))"

definition heave_final :: "copy_row list \<Rightarrow> string \<Rightarrow> window list \<Rightarrow> snow_row \<Rightarrow> snow_row" where
  "heave_final sdf_copy site ws r =
     foldl (\<lambda>r w. heave_row sdf_copy site w r) (r\<lparr>snow_depth_cm := None, snow_sub_heave := None\<rparr>) ws"

definition drop_negative :: "cell \<Rightarrow> cell" where
  "drop_negative v = (if flt v 0 then None else v)"

text \<open>Example frames for the heave correction.\<close>

definition snow_a :: "snow_row list" where
  "snow_a =
     [\<lparr>s_idx = to_datetime 2022 7 1, snow_depth_cm = Some 7, snow_sub_heave = None, heave_cm = None\<rparr>,
      \<lparr>s_idx = to_datetime 2022 9 27, snow_depth_cm = Some 5, snow_sub_heave = None, heave_cm = None\<rparr>,
      \<lparr>s_idx = to_datetime 2022 9 28, snow_depth_cm = Some 3, snow_sub_heave = None, heave_cm = None\<rparr>]"

definition tilt_a :: series where
  "tilt_a = [(to_datetime 2022 9 27, Some 0), (to_datetime 2022 9 28, Some 10)]"

definition snow_a_once :: "snow_row list" where
  "snow_a_once =
     [\<lparr>s_idx = to_datetime 2022 7 1, snow_depth_cm = None, snow_sub_heave = None, heave_cm = None\<rparr>,
      \<lparr>s_idx = to_datetime 2022 9 27, snow_depth_cm = Some 0, snow_sub_heave = Some 0, heave_cm = Some 0\<rparr>,
      \<lparr>s_idx = to_datetime 2022 9 28, snow_depth_cm = None, snow_sub_heave = None, heave_cm = None\<rparr>]"

definition snow_a_twice :: "snow_row list" where
  "snow_a_twice =
     [\<lparr>s_idx = to_datetime 2022 7 1, snow_depth_cm = None, snow_sub_heave = None, heave_cm = None\<rparr>,
      \<lparr>s_idx = to_datetime 2022 9 27, snow_depth_cm = Some 0, snow_sub_heave = Some 0, heave_cm = Some 0\<rparr>,
      \<lparr>s_idx = to_datetime 2022 9 28, snow_depth_cm = None, snow_sub_heave = None, heave_cm = Some 1\<rparr>]"

definition snow_b :: "snow_row list" where
  "snow_b =
     [\<lparr>s_idx = to_datetime 2022 9 27, snow_depth_cm = Some (- 5), snow_sub_heave = None, heave_cm = None\<rparr>,
      \<lparr>s_idx = to_datetime 2022 9 28, snow_depth_cm = Some (- 3), snow_sub_heave = None, heave_cm = None\<rparr>]"

definition snow_d :: "snow_row list" where
  "snow_d =
     [\<lparr>s_idx = to_datetime 2022 9 27, snow_depth_cm = None, snow_sub_heave = None, heave_cm = None\<rparr>,
      \<lparr>s_idx = to_datetime 2022 9 28, snow_depth_cm = Some 3, snow_sub_heave = None, heave_cm = None\<rparr>,
      \<lparr>s_idx = to_datetime 2022 9 29, snow_depth_cm = Some 4, snow_sub_heave = None, heave_cm = None\<rparr>]"

definition snow_c :: "snow_row list" where
  "snow_c =
     [\<lparr>s_idx = to_datetime 2022 9 28, snow_depth_cm = Some 3, snow_sub_heave = None, heave_cm = None\<rparr>,
      \<lparr>s_idx = to_datetime 2022 9 29, snow_depth_cm = Some (- 1), snow_sub_heave = None, heave_cm = None\<rparr>]"

section \<open>merge\_datasets.py: concatenation of the input files\<close>

text \<open>
  \<open>index.duplicated(keep='first')\<close>: for every label, whether it has occurred before
  in the index. The labels seen so far are the first argument.
\<close>

primrec duplicated_from :: "'k list \<Rightarrow> 'k list \<Rightarrow> bool list" where
  "duplicated_from seen [] = []"
| "duplicated_from seen (k # ks) = (k \<in> set seen) # duplicated_from (k # seen) ks"

definition duplicated :: "'k list \<Rightarrow> bool list" where
  "duplicated ks = duplicated_from [] ks"

text \<open>\<open>df[~df.index.duplicated(keep='first')]\<close>: the rows whose flag is not set.\<close>

definition drop_duplicated :: "('k \<times> 'v) list \<Rightarrow> ('k \<times> 'v) list" where
  "drop_duplicated df = map fst (filter (\<lambda>(r, dup). \<not> dup) (zip df (duplicated (map fst df))))"

text \<open>
  The loops of \<open>concat_sonar\<close> and \<open>concat_tilt\<close> over the frames \<open>concat\<close> built
  from the files, in the order of the list \<open>files\<close>; a frame is its rows, label and
  columns (reading and parsing a file is outside the model, and so is the CSV that is
  written).
\<close>

definition concat_sonar :: "('k \<times> 'v) list list \<Rightarrow> ('k \<times> 'v) list" where
  "concat_sonar frames = foldl (\<lambda>df concat. drop_duplicated (df @ concat)) [] frames"

text \<open>
  \<open>concat_tilt\<close> calls \<open>df.sort_index()\<close> between the concatenation and the removal
  of the duplicates. That is pandas' default sort, NumPy's quicksort: it returns the
  rows in ascending order of their labels and is not stable, so the order in which it
  leaves rows of equal labels is not fixed by the source. The sort is therefore an
  argument, \<open>sort_rows\<close>, and each result says what it needs of it.
\<close>

definition concat_tilt ::
  "((int \<times> 'v) list \<Rightarrow> (int \<times> 'v) list) \<Rightarrow> (int \<times> 'v) list list \<Rightarrow> (int \<times> 'v) list" where
  "concat_tilt sort_rows frames =
     foldl (\<lambda>df concat. drop_duplicated (sort_rows (df @ concat))) [] frames"

text \<open>A name for the proofs: the first row of a selection, if it has one.\<close>

definition first_row :: "'a list \<Rightarrow> 'a list" where
  "first_row xs = take 1 xs"

text \<open>Three files with common labels.\<close>

definition merge_example :: "(int \<times> string) list list" where
  "merge_example = [[(2, ''a''), (3, ''b'')], [(1, ''c''), (2, ''d'')], [(3, ''e''), (1, ''f'')]]"

text \<open>
  Two tilt files of one site with the labels 8 to 12 in common: the first has the
  labels 1 to 12, each with the value label + 10, the second the labels 8 to 21, each
  with the value label + 50.
\<close>

definition tilt_file_1 :: "(int \<times> int) list" where
  "tilt_file_1 = map (\<lambda>t. (t, t + 10)) [1..12]"

definition tilt_file_2 :: "(int \<times> int) list" where
  "tilt_file_2 = map (\<lambda>t. (t, t + 50)) [8..21]"

section \<open>process\_snow.py: the merge with the Environment Canada data\<close>

text \<open>
  The daily reference frame that \<open>getMetData\<close> builds from \<open>parse_ec_dir\<close> (a
  function of the package \<open>sarlab\<close>, not of this repository): the date and, of its
  columns, the three that the plots use. The frame of a station is an argument of
  the model.
\<close>

record met_cols =
  mean_temp :: cell
  total_precip :: cell
  snow_on_grnd :: cell

type_synonym met_frame = "(int \<times> met_cols) list"

definition nan_cols :: met_cols where
  "nan_cols = \<lparr>mean_temp = None, total_precip = None, snow_on_grnd = None\<rparr>"

text \<open>
  \<open>df.merge(met_df, how='left', left_index=True, right_index=True)\<close>: every row
  of \<open>df\<close>, in order, with the columns of each row of \<open>met_df\<close> that has its label;
  with NaN columns when there is none.
\<close>

definition getMetData :: "('a \<Rightarrow> int) \<Rightarrow> 'a list \<Rightarrow> met_frame \<Rightarrow> ('a \<times> met_cols) list" where
  "getMetData idx df met_df =
     concat (map (\<lambda>r. case filter (\<lambda>m. fst m = idx r) met_df of
                          [] \<Rightarrow> [(r, nan_cols)]
                        | ms \<Rightarrow> map (\<lambda>m. (r, snd m)) ms) df)"

text \<open>
  A row after both merges: the second merge finds the reference columns of the first
  in the frame already and renames them with the suffix \<open>_x\<close> (Inuvik), its own with
  \<open>_y\<close> (Trail Valley).
\<close>

record merged_row =
  m_idx :: int
  m_snow_depth_cm :: cell
  m_snow_sub_heave :: cell
  m_heave_cm :: cell
  cols_x :: met_cols
  cols_y :: met_cols

definition combine_snow_with_EC ::
  "met_frame \<Rightarrow> met_frame \<Rightarrow> snow_row list \<Rightarrow> string \<Rightarrow> merged_row list" where
  "combine_snow_with_EC inuvik trailvalley sdf site =
     (let sdf1 = getMetData s_idx sdf inuvik;
          sdf2 = getMetData (\<lambda>(r, x). s_idx r) sdf1 trailvalley;
          sdf3 = map (\<lambda>((r, x), y).
                        \<lparr>m_idx = s_idx r, m_snow_depth_cm = snow_depth_cm r,
                         m_snow_sub_heave = snow_sub_heave r, m_heave_cm = heave_cm r,
                         cols_x = x, cols_y = y\<rparr>) sdf2
      in map (\<lambda>r. if isna (snow_on_grnd (cols_x r)) then r\<lparr>m_snow_depth_cm := None\<rparr> else r) sdf3)"

text \<open>A name for the proofs: the reference columns of a date, NaN when it has no row.\<close>

definition met_at :: "met_frame \<Rightarrow> int \<Rightarrow> met_cols" where
  "met_at met_df t = (case map_of met_df t of None \<Rightarrow> nan_cols | Some c \<Rightarrow> c)"

text \<open>Example reference frames.\<close>

definition inuvik_example :: met_frame where
  "inuvik_example =
     [(to_datetime 2022 9 27, \<lparr>mean_temp = Some (- 1), total_precip = Some 0, snow_on_grnd = Some 4\<rparr>),
      (to_datetime 2022 9 28, \<lparr>mean_temp = Some (- 2), total_precip = Some 1, snow_on_grnd = None\<rparr>)]"

definition trailvalley_example :: met_frame where
  "trailvalley_example =
     [(to_datetime 2022 9 28, \<lparr>mean_temp = Some (- 3), total_precip = Some 0, snow_on_grnd = Some 6\<rparr>)]"

section \<open>The geometry conversion: results\<close>

lemma deflection_in_domain:
  assumes "\<bar>L * (1 - cos angle)\<bar> < P"
  shows "deflection L P flip angle =
           Some ((if flip then - (L * sin angle) else L * sin angle)
                 + sqrt (P\<^sup>2 - (L * (1 - cos angle))\<^sup>2))"
proof -
  have "(L * (1 - cos angle))\<^sup>2 < P\<^sup>2"
    using assms power_strict_mono [of "\<bar>L * (1 - cos angle)\<bar>" P 2] by simp
  then have "\<not> P\<^sup>2 - ((1 - cos angle) * L)\<^sup>2 < 0"
    by (simp add: mult.commute)
  then show ?thesis
    by (simp add: deflection_def np_sqrt_def Let_def mult.commute)
qed

lemma deflection_zero:
  assumes "0 \<le> P"
  shows "deflection L P flip 0 = Some P"
  using assms by (simp add: deflection_def np_sqrt_def Let_def)

text \<open>
  Claim C1. For an arm of length \<open>L\<close> and a pivot of height \<open>P\<close> and an angle whose
  horizontal displacement \<open>L * (1 - cos angle)\<close> is below \<open>P\<close> in absolute value, the
  conversion returns \<open>L * sin angle + sqrt (P\<^sup>2 - (L * (1 - cos angle))\<^sup>2)\<close>, with
  the first term negated when \<open>flip\<close> is set; at angle zero it returns \<open>P\<close>.
\<close>

theorem convertAngles_formula:
  assumes "arm site = Some L" and "pivot site = Some P"
    and "\<bar>L * (1 - cos angle)\<bar> < P"
  shows "convertAngles_on arm pivot [Some angle] site flip =
           Inr [Some ((if flip then - (L * sin angle) else L * sin angle)
                      + sqrt (P\<^sup>2 - (L * (1 - cos angle))\<^sup>2))]
         \<and> convertAngles_on arm pivot [Some 0] site flip = Inr [Some P]"
proof -
  have "0 \<le> P" using assms(3) by linarith
  then show ?thesis
    using assms by (simp add: convertAngles_on_def deflection_in_domain deflection_zero)
qed

theorem convertAngles_formula_witness:
  "convertAngles [Some 0] ''site_1'' False = Inr [Some 120]
   \<and> convertAngles [Some 0] ''site_1'' True = Inr [Some 120]"
proof -
  have a: "arm_length ''site_1'' = Some 1470" by (simp add: arm_length_def)
  have p: "pivot_height ''site_1'' = Some 120" by (simp add: pivot_height_def)
  have d: "\<bar>(1470::real) * (1 - cos 0)\<bar> < 120" by simp
  show ?thesis
    using convertAngles_formula [where arm = arm_length and pivot = pivot_height
        and site = "''site_1''" and angle = 0 and flip = False, OF a p d]
      convertAngles_formula [where arm = arm_length and pivot = pivot_height
        and site = "''site_1''" and angle = 0 and flip = True, OF a p d]
    by (simp add: convertAngles_def)
qed

section \<open>The deflection processor: results\<close>

lemma first_valid_fsub:
  "first_valid xs = Inr b \<Longrightarrow> first_valid (map (\<lambda>x. fsub x (Some c)) xs) = Inr (b - c)"
  by (induction xs rule: first_valid.induct) (auto simp: fsub_def)

lemma processData_known:
  assumes "arm_length site = Some L" and "pivot_height site = Some P"
  shows "processData data site =
           (case first_valid (map o_h1_mm (prepared L P data)) of
              Inl e \<Rightarrow> Inl e
            | Inr b \<Rightarrow> Inr (map (relative b) (prepared L P data)))"
proof -
  have "map (\<lambda>(r, h). \<lparr>o_idx = t_idx r, o_logger_temp_c = logger_temp_c r, o_h1_mm = h\<rparr>)
          (zip data (map (\<lambda>a. case a of None \<Rightarrow> None | Some angle \<Rightarrow> deflection L P False angle)
                       (map angle_1 data)))
        = map (converted L P) data"
    by (induction data) (simp_all add: converted_def)
  then show ?thesis
    using assms
    by (simp add: processData_def convertAngles_def convertAngles_on_def prepared_def
        relative_def [abs_def] Let_def split: sum.splits)
qed

lemma processData_unknown:
  assumes "arm_length site = None \<or> pivot_height site = None"
  shows "processData data site = Inl KeyError"
  using assms
  by (auto simp: processData_def convertAngles_def convertAngles_on_def split: option.splits)

lemma truncate_period_filter: "truncate_period out = filter (\<lambda>r. in_period (o_idx r)) out"
  by (simp add: truncate_period_def in_period_def conj_commute)

lemma prepared_normal:
  "prepared L P data =
     drop_cold (sort_index (fill_zero (map (converted L P) (filter (\<lambda>r. in_period (t_idx r)) data))))"
proof -
  have "filter (\<lambda>r. in_period (o_idx r)) (fill_zero (map (converted L P) data))
        = fill_zero (map (converted L P) (filter (\<lambda>r. in_period (t_idx r)) data))"
    by (induction data) (simp_all add: fill_zero_def converted_def)
  then show ?thesis
    by (simp add: prepared_def truncate_period_filter sort_index_def filter_sort)
qed

lemma prepared_truncated:
  "prepared L P (filter (\<lambda>r. in_period (t_idx r)) data) = prepared L P data"
  by (simp add: prepared_normal)

lemma prepared_sorted: "sorted (map o_idx (prepared L P data))"
proof -
  have "map o_idx (drop_cold xs) = map o_idx xs" for xs
    by (induction xs) (simp_all add: drop_cold_def)
  then show ?thesis
    by (simp add: prepared_def truncate_period_filter sort_index_def sorted_filter)
qed


lemma set_prepared:
  "set (prepared L P data) = final_row L P ` {s \<in> set data. in_period (t_idx s)}"
proof -
  define dc where "dc = (\<lambda>r::out_row. if flt (o_logger_temp_c r) (- 35) then r\<lparr>o_h1_mm := None\<rparr> else r)"
  define fz where
    "fz = (\<lambda>r::out_row. r\<lparr>o_logger_temp_c := fillna0 (o_logger_temp_c r), o_h1_mm := fillna0 (o_h1_mm r)\<rparr>)"
  have "drop_cold xs = map dc xs" "fill_zero xs = map fz xs" for xs
    by (simp_all add: drop_cold_def fill_zero_def dc_def fz_def)
  then have "set (prepared L P data) =
          (\<lambda>s. dc (fz (converted L P s))) ` {s \<in> set data. in_period (t_idx s)}"
    by (simp add: prepared_normal sort_index_def image_image)
  moreover have "dc (fz (converted L P s)) = final_row L P s" for s
    by (simp add: dc_def fz_def converted_def final_row_def)
  ultimately show ?thesis
    by simp
qed

lemma site_1_tables: "arm_length ''site_1'' = Some 1470" "pivot_height ''site_1'' = Some 120"
  by (simp_all add: arm_length_def pivot_height_def)

lemmas eval_defs = prepared_def drop_cold_def truncate_period_def sort_index_def fill_zero_def
  converted_def relative_def fillna0_def flt_def fsub_def start_date_def end_date_def
  to_datetime_def days_from_civil_def Let_def deflection_zero

lemma processData_tilt_example: "processData tilt_example ''site_1'' = Inr tilt_example_out"
  by (simp add: processData_known [OF site_1_tables] tilt_example_def tilt_example_out_def eval_defs)

lemma processData_tilt_early:
  "processData tilt_early ''site_1'' =
     Inr [\<lparr>d_idx = to_datetime 2019 1 1, d_logger_temp_c = Some 0, h1_mm = Some 0, dh1_mm = Some 0\<rparr>]"
  by (simp add: processData_known [OF site_1_tables] tilt_early_def eval_defs)

text \<open>
  Claim C2. When the deflection processor returns a frame (which it does exactly when
  some absolute deflection of the processed series is not missing), the relative
  deflection \<open>dh1_mm\<close> of every row is its absolute deflection \<open>h1_mm\<close> minus the
  first non-missing absolute deflection of that frame, and the first non-missing
  relative deflection is zero.
\<close>

theorem processData_relative:
  assumes "processData data site = Inr out"
  shows "\<exists>b. first_valid (map h1_mm out) = Inr b
           \<and> (\<forall>r\<in>set out. dh1_mm r = fsub (h1_mm r) (Some b))
           \<and> first_valid (map dh1_mm out) = Inr 0"
proof -
  obtain L P where known: "arm_length site = Some L" "pivot_height site = Some P"
    using assms processData_unknown [of site data] by (cases "arm_length site"; cases "pivot_height site") auto
  let ?pre = "prepared L P data"
  obtain b where b: "first_valid (map o_h1_mm ?pre) = Inr b" and out: "out = map (relative b) ?pre"
    using assms by (auto simp: processData_known [OF known] split: sum.splits)
  have h: "map h1_mm out = map o_h1_mm ?pre"
    by (simp add: out relative_def)
  have d: "map dh1_mm out = map (\<lambda>x. fsub x (Some b)) (map o_h1_mm ?pre)"
    by (simp add: out relative_def)
  have "first_valid (map dh1_mm out) = Inr 0"
    using first_valid_fsub [OF b, of b] by (simp add: d)
  moreover have "\<forall>r\<in>set out. dh1_mm r = fsub (h1_mm r) (Some b)"
    by (auto simp: out relative_def)
  ultimately show ?thesis
    using b h by auto
qed

theorem processData_relative_witness:
  "processData tilt_example ''site_1'' = Inr tilt_example_out
   \<and> first_valid (map h1_mm tilt_example_out) = Inr 120
   \<and> first_valid (map dh1_mm tilt_example_out) = Inr 0"
proof -
  have e: "processData tilt_example ''site_1'' = Inr tilt_example_out"
    by (rule processData_tilt_example)
  have "first_valid (map dh1_mm tilt_example_out) = Inr 0"
    using processData_relative [OF e] by blast
  moreover have "first_valid (map h1_mm tilt_example_out) = Inr 120"
    by (simp add: tilt_example_out_def)
  ultimately show ?thesis
    using e by simp
qed




lemma processData_tilt_cold: "processData tilt_cold ''site_1'' = Inl IndexError"
  by (simp add: processData_known [OF site_1_tables] tilt_cold_def eval_defs)

lemma processData_listed_order_tilt_early:
  "processData_listed_order tilt_early ''site_1'' =
     Inr [\<lparr>d_idx = to_datetime 2019 1 1, d_logger_temp_c = Some 0, h1_mm = Some 0,
           dh1_mm = Some (- 120)\<rparr>]"
  using site_1_tables
  by (simp add: processData_listed_order_def convertAngles_def convertAngles_on_def
      tilt_early_def eval_defs)

lemma prepared_h1_none:
  "(\<forall>x\<in>set (map o_h1_mm (prepared L P data)). x = None)
   = (\<forall>r\<in>set data. in_period (t_idx r) \<longrightarrow> flt (fillna0 (logger_temp_c r)) (- 35))"
proof -
  have "o_h1_mm (final_row L P s) = None \<longleftrightarrow> flt (fillna0 (logger_temp_c s)) (- 35)" for s
    by (simp add: final_row_def fillna0_def split: option.splits)
  then show ?thesis
    unfolding set_map set_prepared by auto
qed

lemma first_valid_iff: "(first_valid xs = Inl IndexError) = (\<forall>x\<in>set xs. x = None)"
  by (induction xs rule: first_valid.induct) auto

lemma first_valid_other: "first_valid xs \<noteq> Inl KeyError" "first_valid xs \<noteq> Inl EmptySeriesError"
  by (induction xs rule: first_valid.induct) auto

text \<open>
  Claim C7, as the code has it. For a site of the tables, the deflection processor
  fails exactly when every row inside the analysis period is colder than -35 (so no
  absolute deflection is left for the baseline), and the failure is the
  \<open>IndexError\<close> of \<open>.iloc[0]\<close>: never \<open>KeyError\<close>, never \<open>EmptySeriesError\<close>.
\<close>

theorem processData_no_baseline:
  assumes "arm_length site = Some L" and "pivot_height site = Some P"
  shows "(processData data site = Inl IndexError)
           = (\<forall>r\<in>set data. in_period (t_idx r) \<longrightarrow> flt (fillna0 (logger_temp_c r)) (- 35))
         \<and> processData data site \<noteq> Inl KeyError
         \<and> processData data site \<noteq> Inl EmptySeriesError"
proof -
  have "(processData data site = Inl e) = (first_valid (map o_h1_mm (prepared L P data)) = Inl e)" for e
    by (simp add: processData_known [OF assms] split: sum.splits)
  then show ?thesis
    by (simp add: first_valid_iff first_valid_other prepared_h1_none del: set_map)
qed

theorem processData_no_baseline_witness:
  "processData tilt_cold ''site_1'' = Inl IndexError
   \<and> processData tilt_example ''site_1'' \<noteq> Inl IndexError"
proof -
  have "\<not> (\<forall>r\<in>set tilt_example. in_period (t_idx r) \<longrightarrow> flt (fillna0 (logger_temp_c r)) (- 35))"
    by (simp add: tilt_example_def in_period_def eval_defs)
  moreover have "\<forall>r\<in>set tilt_cold. in_period (t_idx r) \<longrightarrow> flt (fillna0 (logger_temp_c r)) (- 35)"
    by (simp add: tilt_cold_def in_period_def eval_defs)
  ultimately show ?thesis
    using processData_no_baseline [OF site_1_tables, of tilt_cold]
      processData_no_baseline [OF site_1_tables, of tilt_example]
    by simp
qed

text \<open>
  The claim as stated fails: a series whose only row is cold has no absolute
  deflection left, and the error is \<open>IndexError\<close>, not \<open>EmptySeriesError\<close>.
\<close>

theorem processData_not_EmptySeriesError:
  "processData tilt_cold ''site_1'' = Inl IndexError
   \<and> processData tilt_cold ''site_1'' \<noteq> Inl EmptySeriesError"
  by (simp add: processData_tilt_cold)

text \<open>
  Claim C5, as the code has it. Truncation comes before the cold filter and the
  baseline: the rows outside the analysis period have no influence on the result. The
  returned frame is sorted, lies inside the period, has a missing absolute deflection
  exactly on the cold rows (the zero fill came before the cold filter), and its
  baseline is the first non-missing absolute deflection of the truncated, sorted frame.
\<close>

theorem processData_stage_order:
  "processData (filter (\<lambda>r. in_period (t_idx r)) data) site = processData data site
   \<and> (\<forall>out. processData data site = Inr out \<longrightarrow>
         sorted (map d_idx out)
         \<and> (\<forall>r\<in>set out. in_period (d_idx r) \<and> d_logger_temp_c r \<noteq> None
               \<and> (h1_mm r = None) = flt (d_logger_temp_c r) (- 35))
         \<and> (\<exists>b. first_valid (map h1_mm out) = Inr b
               \<and> (\<forall>r\<in>set out. dh1_mm r = fsub (h1_mm r) (Some b))))"
proof (cases "arm_length site = None \<or> pivot_height site = None")
  case True
  then show ?thesis
    by (simp add: processData_unknown)
next
  case False
  then obtain L P where known: "arm_length site = Some L" "pivot_height site = Some P"
    by auto
  let ?pre = "prepared L P data"
  have first: "processData (filter (\<lambda>r. in_period (t_idx r)) data) site = processData data site"
    by (simp only: processData_known [OF known] prepared_truncated)
  have rest: "sorted (map d_idx out)
         \<and> (\<forall>r\<in>set out. in_period (d_idx r) \<and> d_logger_temp_c r \<noteq> None
               \<and> (h1_mm r = None) = flt (d_logger_temp_c r) (- 35))
         \<and> (\<exists>b. first_valid (map h1_mm out) = Inr b
               \<and> (\<forall>r\<in>set out. dh1_mm r = fsub (h1_mm r) (Some b)))"
    if ok: "processData data site = Inr out" for out
  proof -
    obtain b where b: "first_valid (map o_h1_mm ?pre) = Inr b" and out: "out = map (relative b) ?pre"
      using ok by (auto simp: processData_known [OF known] split: sum.splits)
    have "map d_idx out = map o_idx ?pre" "map h1_mm out = map o_h1_mm ?pre"
      by (simp_all add: out relative_def)
    then have "sorted (map d_idx out)" "first_valid (map h1_mm out) = Inr b"
      using b by (simp_all add: prepared_sorted)
    moreover have "\<forall>r\<in>set out. dh1_mm r = fsub (h1_mm r) (Some b)"
      by (simp add: out relative_def)
    moreover have "in_period (d_idx r) \<and> d_logger_temp_c r \<noteq> None
               \<and> (h1_mm r = None) = flt (d_logger_temp_c r) (- 35)" if "r \<in> set out" for r
    proof -
      have "r \<in> relative b ` set ?pre"
        using that by (simp add: out)
      then obtain p where p: "p \<in> set ?pre" and rp: "r = relative b p"
        by (rule imageE)
      from p have "p \<in> final_row L P ` {s \<in> set data. in_period (t_idx s)}"
        by (simp only: set_prepared)
      then obtain s where s: "in_period (t_idx s)" and ps: "p = final_row L P s"
        by (elim imageE) blast
      show ?thesis
        using s by (simp add: rp ps relative_def final_row_def fillna0_def split: option.splits)
    qed
    ultimately show ?thesis
      by blast
  qed
  show ?thesis
    using first rest by blast
qed

theorem processData_stage_order_witness:
  "processData (filter (\<lambda>r. in_period (t_idx r)) tilt_early) ''site_1''
     = Inr [\<lparr>d_idx = to_datetime 2019 1 1, d_logger_temp_c = Some 0, h1_mm = Some 0, dh1_mm = Some 0\<rparr>]
   \<and> sorted (map d_idx tilt_example_out)"
  using processData_stage_order [of tilt_early "''site_1''"]
    processData_stage_order [of tilt_example "''site_1''"]
  by (simp add: processData_tilt_early processData_tilt_example)

text \<open>
  The claim as stated fails: with a row before the analysis period whose absolute
  deflection is 120 and a row inside it whose absolute deflection is 0, the code's
  baseline is 0; in the listed order (baseline over the whole series, then truncation)
  it would be 120.
\<close>

theorem processData_baseline_after_truncation:
  "processData tilt_early ''site_1'' =
     Inr [\<lparr>d_idx = to_datetime 2019 1 1, d_logger_temp_c = Some 0, h1_mm = Some 0, dh1_mm = Some 0\<rparr>]
   \<and> processData_listed_order tilt_early ''site_1'' =
     Inr [\<lparr>d_idx = to_datetime 2019 1 1, d_logger_temp_c = Some 0, h1_mm = Some 0,
           dh1_mm = Some (- 120)\<rparr>]
   \<and> processData tilt_early ''site_1'' \<noteq> processData_listed_order tilt_early ''site_1''"
  by (simp add: processData_tilt_early processData_listed_order_tilt_early)


section \<open>The heave correction: results\<close>

lemma map_of_filter_key:
  "map_of (filter (\<lambda>p. P (fst p)) xs) k = (if P k then map_of xs k else None)"
  by (induction xs) auto

lemma season_filter: "season sdf_copy site w = filter (\<lambda>c. in_season site w (c_idx c)) sdf_copy"
  by (auto simp: season_def in_season_def Let_def intro: filter_cong)

lemma map_of_season:
  "map_of (map (\<lambda>c. (c_idx c, g c)) (season sdf_copy site w)) k
     = (if in_season site w k then map_of (map (\<lambda>c. (c_idx c, g c)) sdf_copy) k else None)"
proof -
  have "map (\<lambda>c. (c_idx c, g c)) (filter (\<lambda>c. in_season site w (c_idx c)) sdf_copy)
        = filter (\<lambda>p. in_season site w (fst p)) (map (\<lambda>c. (c_idx c, g c)) sdf_copy)"
    by (induction sdf_copy) simp_all
  then show ?thesis
    by (simp add: season_filter map_of_filter_key)
qed

lemma map_of_column_none:
  "(map_of (map (\<lambda>c. (c_idx c, g c)) s) k = None) = (k \<notin> c_idx ` set s)"
  by (simp add: map_of_eq_None_iff image_image)

lemma map_of_column_map:
  "map_of (map (\<lambda>(i, v). (i, f v)) (map (\<lambda>c. (c_idx c, g c)) s)) k
     = map_option f (map_of (map (\<lambda>c. (c_idx c, g c)) s) k)"
  by (induction s) auto

lemma season_depth_eq:
  "season_depth sdf_copy site w k =
     (case map_of (map (\<lambda>c. (c_idx c, c_snow_depth_cm c)) (season sdf_copy site w)) (w_start w) of
        None \<Rightarrow> map_of (map (\<lambda>c. (c_idx c, c_snow_depth_cm c)) (season sdf_copy site w)) k
      | Some s0 \<Rightarrow>
          map_option (\<lambda>v. fsub v s0)
            (map_of (map (\<lambda>c. (c_idx c, c_snow_depth_cm c)) (season sdf_copy site w)) k))"
proof -
  let ?S = "season sdf_copy site w"
  have keys: "(map_of (map (\<lambda>c. (c_idx c, c_snow_depth_cm c)) ?S) (w_start w) = None)
              = (map_of (map (\<lambda>c. (c_idx c, c_dh1_mm c)) ?S) (w_start w) = None)"
    by (simp only: map_of_column_none)
  show ?thesis
    using keys
    by (auto simp: season_depth_def corrected_def loc_label_def Let_def map_of_column_map
        simp del: map_map split: option.splits)
qed

lemma season_heave_eq:
  "season_heave sdf_copy site w k =
     (case map_of (map (\<lambda>c. (c_idx c, c_dh1_mm c)) (season sdf_copy site w)) (w_start w) of
        None \<Rightarrow> map_of (map (\<lambda>c. (c_idx c, c_dh1_mm c)) (season sdf_copy site w)) k
      | Some d0 \<Rightarrow>
          map_option (\<lambda>v. fsub v d0)
            (map_of (map (\<lambda>c. (c_idx c, c_dh1_mm c)) (season sdf_copy site w)) k))"
proof -
  let ?S = "season sdf_copy site w"
  have keys: "(map_of (map (\<lambda>c. (c_idx c, c_snow_depth_cm c)) ?S) (w_start w) = None)
              = (map_of (map (\<lambda>c. (c_idx c, c_dh1_mm c)) ?S) (w_start w) = None)"
    by (simp only: map_of_column_none)
  show ?thesis
    using keys
    by (auto simp: season_heave_def corrected_def loc_label_def Let_def map_of_column_map
        simp del: map_map split: option.splits)
qed

lemma season_depth_none:
  "(season_depth sdf_copy site w k = None) = (\<not> (in_season site w k \<and> k \<in> c_idx ` set sdf_copy))"
proof -
  have "(map_of (map (\<lambda>c. (c_idx c, c_snow_depth_cm c)) (season sdf_copy site w)) k = None)
        = (\<not> (in_season site w k \<and> k \<in> c_idx ` set sdf_copy))"
    unfolding map_of_column_none by (auto simp: season_filter)
  then show ?thesis
    by (simp add: season_depth_eq split: option.splits)
qed

lemma season_heave_none:
  "(season_heave sdf_copy site w k = None) = (\<not> (in_season site w k \<and> k \<in> c_idx ` set sdf_copy))"
proof -
  have "(map_of (map (\<lambda>c. (c_idx c, c_dh1_mm c)) (season sdf_copy site w)) k = None)
        = (\<not> (in_season site w k \<and> k \<in> c_idx ` set sdf_copy))"
    unfolding map_of_column_none by (auto simp: season_filter)
  then show ?thesis
    by (simp add: season_heave_eq split: option.splits)
qed

lemma map_of_map_key:
  "map_of (map (\<lambda>(i, v). (i, f i v)) xs) k = map_option (f k) (map_of xs k)"
  by (induction xs) auto

lemma heave_window_rows:
  "heave_window sdf_copy site sdf w = map (heave_row sdf_copy site w) sdf"
proof -
  obtain csd cdh where c: "corrected (season sdf_copy site w) (w_start w) = (csd, cdh)"
    by (cases "corrected (season sdf_copy site w) (w_start w)")
  have sd: "season_depth sdf_copy site w = map_of csd" and dh: "season_heave sdf_copy site w = map_of cdh"
    by (simp_all add: season_depth_def season_heave_def c)
  have keys: "(map_of csd k = None) = (map_of cdh k = None)" for k
    using season_depth_none [of sdf_copy site w k] season_heave_none [of sdf_copy site w k]
    by (simp add: sd dh)
  have sub: "map_of (series_sub csd (map (\<lambda>(i, v). (i, fillna0 (fmul v 0.1))) cdh)) k
             = map_option (\<lambda>v. fsub v (case map_of cdh k of None \<Rightarrow> None
                                         | Some d \<Rightarrow> fillna0 (fmul d 0.1))) (map_of csd k)" for k
    by (simp add: series_sub_def map_of_map_key map_of_map split: option.splits)
  have k1: "map_of cdh k = Some d \<Longrightarrow> map_of csd k = None \<Longrightarrow> False" for k d
    using keys [of k] by simp
  have k2: "map_of csd k = Some v \<Longrightarrow> map_of cdh k = None \<Longrightarrow> False" for k v
    using keys [of k] by simp
  show ?thesis
    unfolding heave_window_def c
    by (auto simp: Let_def heave_row_def invalidate_def sd dh sub split: option.splits
        dest: k1 k2)
qed

lemma foldl_rows:
  "foldl (\<lambda>s w. map (g w) s) s0 ws = map (\<lambda>r. foldl (\<lambda>r w. g w r) r ws) s0"
  by (induction ws arbitrary: s0) (simp_all add: comp_def)

lemma correct_for_heave_on_rows:
  "correct_for_heave_on ws tdf sdf site = map (heave_final (make_copy tdf sdf) site ws) sdf"
proof -
  have "heave_window sdf_copy site = (\<lambda>s w. map (heave_row sdf_copy site w) s)" for sdf_copy
    by (intro ext) (rule heave_window_rows)
  then show ?thesis
    by (simp add: correct_for_heave_on_def Let_def foldl_rows heave_final_def comp_def)
qed

lemma heave_row_outside:
  assumes "season_depth sdf_copy site w (s_idx r) = None" and "\<not> flt (snow_depth_cm r) 0"
  shows "heave_row sdf_copy site w r = r\<lparr>heave_cm := None\<rparr>"
  using assms by (simp add: heave_row_def invalidate_def)

lemma heave_row_inside:
  assumes "season_depth sdf_copy site w (s_idx r) = Some v"
    and "season_heave sdf_copy site w (s_idx r) = Some d"
  shows "heave_row sdf_copy site w r =
           r\<lparr>snow_depth_cm := drop_negative v,
             snow_sub_heave := (if flt v 0 then None else fsub v (fillna0 (fmul d 0.1))),
             heave_cm := (if flt v 0 then None else fmul d 0.1)\<rparr>"
  using assms by (simp add: heave_row_def invalidate_def drop_negative_def)

lemma heave_row_idx [simp]: "s_idx (heave_row sdf_copy site w r) = s_idx r"
  by (simp add: heave_row_def invalidate_def split: option.splits)

lemma drop_negative_simps [simp]:
  "\<not> flt (drop_negative v) 0" "drop_negative (drop_negative v) = drop_negative v"
  "drop_negative None = None"
  by (simp_all add: drop_negative_def flt_def)

lemma heave_fold_idx [simp]:
  "s_idx (foldl (\<lambda>r w. heave_row sdf_copy site w r) r0 ws) = s_idx r0"
  by (induction ws arbitrary: r0) simp_all

lemma heave_fold_outside:
  assumes "\<forall>w\<in>set ws. season_depth sdf_copy site w (s_idx r0) = None"
    and "\<not> flt (snow_depth_cm r0) 0"
  shows "foldl (\<lambda>r w. heave_row sdf_copy site w r) r0 ws
           = (if ws = [] then r0 else r0\<lparr>heave_cm := None\<rparr>)"
  using assms
proof (induction ws arbitrary: r0)
  case Nil
  then show ?case by simp
next
  case (Cons w ws)
  have step: "heave_row sdf_copy site w r0 = r0\<lparr>heave_cm := None\<rparr>"
    using Cons.prems by (simp add: heave_row_outside)
  have "foldl (\<lambda>r w. heave_row sdf_copy site w r) (r0\<lparr>heave_cm := None\<rparr>) ws
          = (if ws = [] then r0\<lparr>heave_cm := None\<rparr> else r0\<lparr>heave_cm := None\<rparr>\<lparr>heave_cm := None\<rparr>)"
    using Cons.prems by (intro Cons.IH) simp_all
  then show ?case
    by (simp add: step)
qed

lemma disjoint_other_season:
  assumes "windows_disjoint ws" and "w \<in> set ws" and "x \<in> set ws" and "w \<noteq> x"
    and "season_depth sdf_copy site w k = Some v"
  shows "season_depth sdf_copy site x k = None"
proof -
  have "in_season site w k"
    using assms(5) season_depth_none [of sdf_copy site w k] by auto
  then have "w_start w \<le> k" "k < w_end w"
    by (simp_all add: in_season_def)
  moreover have "w_end w \<le> w_start x \<or> w_end x \<le> w_start w"
    using assms(1-4) unfolding windows_disjoint_def by blast
  ultimately have "\<not> in_season site x k"
    by (auto simp: in_season_def)
  then show ?thesis
    by (simp add: season_depth_none)
qed

lemma heave_fold_inside:
  assumes "windows_disjoint ws" and "w \<in> set ws"
    and "season_depth sdf_copy site w (s_idx r0) = Some v"
    and "season_heave sdf_copy site w (s_idx r0) = Some d"
  shows "foldl (\<lambda>r w. heave_row sdf_copy site w r) r0 ws
           = r0\<lparr>snow_depth_cm := drop_negative v,
                snow_sub_heave := (if flt v 0 then None else fsub v (fillna0 (fmul d 0.1))),
                heave_cm := (if w = last ws \<and> \<not> flt v 0 then fmul d 0.1 else None)\<rparr>"
  using assms(1,2)
proof (induction ws rule: rev_induct)
  case Nil
  then show ?case by simp
next
  case (snoc x xs)
  let ?r = "foldl (\<lambda>r w. heave_row sdf_copy site w r) r0 xs"
  show ?case
  proof (cases "w = x")
    case True
    have "heave_row sdf_copy site x ?r =
           ?r\<lparr>snow_depth_cm := drop_negative v,
               snow_sub_heave := (if flt v 0 then None else fsub v (fillna0 (fmul d 0.1))),
               heave_cm := (if flt v 0 then None else fmul d 0.1)\<rparr>"
      using assms(3,4) True by (intro heave_row_inside) simp_all
    moreover have "s_idx ?r = s_idx r0"
      by simp
    ultimately show ?thesis
      using True by (cases ?r; cases r0) auto
  next
    case False
    then have w: "w \<in> set xs"
      using snoc.prems by simp
    have dis: "windows_disjoint xs"
      using snoc.prems(1) by (simp add: windows_disjoint_def)
    have r: "?r = r0\<lparr>snow_depth_cm := drop_negative v,
                snow_sub_heave := (if flt v 0 then None else fsub v (fillna0 (fmul d 0.1))),
                heave_cm := (if w = last xs \<and> \<not> flt v 0 then fmul d 0.1 else None)\<rparr>"
      using snoc.IH [OF dis w] .
    have "season_depth sdf_copy site x (s_idx ?r) = None"
      using disjoint_other_season [OF snoc.prems(1) snoc.prems(2) _ False] assms(3) by simp
    moreover have "\<not> flt (snow_depth_cm ?r) 0"
      by (simp add: r)
    ultimately have "heave_row sdf_copy site x ?r = ?r\<lparr>heave_cm := None\<rparr>"
      by (rule heave_row_outside)
    then show ?thesis
      using False by (simp add: r)
  qed
qed

lemma heave_final_idx [simp]: "s_idx (heave_final sdf_copy site ws r) = s_idx r"
  by (simp add: heave_final_def)

lemma heave_final_outside:
  assumes "\<forall>w\<in>set ws. season_depth sdf_copy site w (s_idx r) = None" and "ws \<noteq> []"
  shows "heave_final sdf_copy site ws r
           = r\<lparr>snow_depth_cm := None, snow_sub_heave := None, heave_cm := None\<rparr>"
  using assms
    heave_fold_outside [of ws sdf_copy site "r\<lparr>snow_depth_cm := None, snow_sub_heave := None\<rparr>"]
  by (simp add: heave_final_def flt_def)

lemma heave_final_inside:
  assumes "windows_disjoint ws" and "w \<in> set ws"
    and "season_depth sdf_copy site w (s_idx r) = Some v"
    and "season_heave sdf_copy site w (s_idx r) = Some d"
  shows "heave_final sdf_copy site ws r
           = r\<lparr>snow_depth_cm := drop_negative v,
               snow_sub_heave := (if flt v 0 then None else fsub v (fillna0 (fmul d 0.1))),
               heave_cm := (if w = last ws \<and> \<not> flt v 0 then fmul d 0.1 else None)\<rparr>"
  using assms
    heave_fold_inside [of ws w sdf_copy site "r\<lparr>snow_depth_cm := None, snow_sub_heave := None\<rparr>" v d]
  by (simp add: heave_final_def)

lemma map_of_find:
  "map_of (map (\<lambda>r. (f r, g r)) xs) k = map_option g (find (\<lambda>r. f r = k) xs)"
  by (induction xs) auto

lemma find_idx: "find (\<lambda>r. f r = k) xs = Some r \<Longrightarrow> r \<in> set xs \<and> f r = k"
  by (induction xs) (auto split: if_splits)

lemma find_distinct:
  "distinct (map f xs) \<Longrightarrow> r \<in> set xs \<Longrightarrow> find (\<lambda>x. f x = f r) xs = Some r"
  by (induction xs) force+

lemma copy_depth_column:
  "map (\<lambda>c. (c_idx c, c_snow_depth_cm c)) (make_copy tdf sdf) = map (\<lambda>r. (s_idx r, snow_depth_cm r)) sdf"
  by (simp add: make_copy_def comp_def)

lemma copy_tilt_column:
  "map (\<lambda>c. (c_idx c, c_dh1_mm c)) (make_copy tdf sdf)
     = map (\<lambda>r. (s_idx r, case map_of tdf (s_idx r) of None \<Rightarrow> None | Some v \<Rightarrow> v)) sdf"
  by (simp add: make_copy_def comp_def)

lemma copy_idx: "c_idx ` set (make_copy tdf sdf) = s_idx ` set sdf"
  by (simp add: make_copy_def image_image)

text \<open>The season's depth column, looked up at a label.\<close>

lemma season_column_depth:
  "map_of (map (\<lambda>c. (c_idx c, c_snow_depth_cm c)) (season (make_copy tdf sdf) site w)) k
     = (if in_season site w k then map_option snow_depth_cm (find (\<lambda>r. s_idx r = k) sdf) else None)"
  by (subst map_of_season) (simp only: copy_depth_column map_of_find)

lemma season_column_tilt:
  "map_of (map (\<lambda>c. (c_idx c, c_dh1_mm c)) (season (make_copy tdf sdf) site w)) k
     = (if in_season site w k
        then map_option (\<lambda>r. case map_of tdf (s_idx r) of None \<Rightarrow> None | Some v \<Rightarrow> v)
               (find (\<lambda>r. s_idx r = k) sdf)
        else None)"
  by (subst map_of_season) (simp only: copy_tilt_column map_of_find)

lemma season_depth_copy:
  "season_depth (make_copy tdf sdf) site w k =
     (case (if in_season site w (w_start w)
            then map_option snow_depth_cm (find (\<lambda>r. s_idx r = w_start w) sdf) else None) of
        None \<Rightarrow> (if in_season site w k
                 then map_option snow_depth_cm (find (\<lambda>r. s_idx r = k) sdf) else None)
      | Some s0 \<Rightarrow>
          map_option (\<lambda>v. fsub v s0)
            (if in_season site w k
             then map_option snow_depth_cm (find (\<lambda>r. s_idx r = k) sdf) else None))"
  by (simp only: season_depth_eq season_column_depth)

lemma season_heave_copy:
  "season_heave (make_copy tdf sdf) site w k =
     (case (if in_season site w (w_start w)
            then map_option (\<lambda>r. case map_of tdf (s_idx r) of None \<Rightarrow> None | Some v \<Rightarrow> v)
                   (find (\<lambda>r. s_idx r = w_start w) sdf) else None) of
        None \<Rightarrow> (if in_season site w k
                 then map_option (\<lambda>r. case map_of tdf (s_idx r) of None \<Rightarrow> None | Some v \<Rightarrow> v)
                        (find (\<lambda>r. s_idx r = k) sdf) else None)
      | Some d0 \<Rightarrow>
          map_option (\<lambda>v. fsub v d0)
            (if in_season site w k
             then map_option (\<lambda>r. case map_of tdf (s_idx r) of None \<Rightarrow> None | Some v \<Rightarrow> v)
                    (find (\<lambda>r. s_idx r = k) sdf) else None))"
  by (simp only: season_heave_eq season_column_tilt)

lemma find_absent: "k \<notin> f ` set xs \<Longrightarrow> find (\<lambda>r. f r = k) xs = None"
  by (auto simp: find_None_iff)

lemma raw_season:
  assumes "distinct (map s_idx sdf)" and "r \<in> set sdf"
    and "w_start w \<notin> s_idx ` set sdf" and "in_season site w (s_idx r)"
  shows "season_depth (make_copy tdf sdf) site w (s_idx r) = Some (snow_depth_cm r)"
    and "season_heave (make_copy tdf sdf) site w (s_idx r)
           = Some (case map_of tdf (s_idx r) of None \<Rightarrow> None | Some v \<Rightarrow> v)"
  using assms
  by (simp_all add: season_depth_copy season_heave_copy find_absent find_distinct)

text \<open>
  The \<open>except\<close> branch. Take a frame with unique labels, a table of seasons that do
  not overlap, and a season \<open>w\<close> of it at whose first date the frame has no row: the
  lookup raises, the exception is caught, and a row inside the season is computed from
  the raw values. Its snow depth is the raw snow depth and its \<open>snow_sub_heave\<close> the
  raw snow depth minus a tenth of the raw heave (zero for a missing heave); a row
  whose raw snow depth is negative is invalidated.
\<close>

lemma heave_start_row_absent:
  assumes "distinct (map s_idx sdf)" and "windows_disjoint ws" and "w \<in> set ws"
    and "w_start w \<notin> s_idx ` set sdf"
    and "k < length sdf" and "in_season site w (s_idx (sdf ! k))"
  shows "length (correct_for_heave_on ws tdf sdf site) = length sdf
         \<and> s_idx (correct_for_heave_on ws tdf sdf site ! k) = s_idx (sdf ! k)
         \<and> snow_depth_cm (correct_for_heave_on ws tdf sdf site ! k)
             = (if flt (snow_depth_cm (sdf ! k)) 0 then None else snow_depth_cm (sdf ! k))
         \<and> snow_sub_heave (correct_for_heave_on ws tdf sdf site ! k)
             = (if flt (snow_depth_cm (sdf ! k)) 0 then None
                else fsub (snow_depth_cm (sdf ! k))
                       (fillna0 (fmul (case map_of tdf (s_idx (sdf ! k)) of None \<Rightarrow> None | Some v \<Rightarrow> v) 0.1)))"
proof -
  have r: "sdf ! k \<in> set sdf"
    using assms(5) by simp
  show ?thesis
    using assms(5)
    by (simp add: correct_for_heave_on_rows
        heave_final_inside [OF assms(2,3) raw_season [OF assms(1) r assms(4,6)]]
        drop_negative_def)
qed

text \<open>
  Claim C4, as the code has it. The invalidation tests the snow depth that the loop
  has just written, \<open>corrected_sd\<close>: the raw depth minus the depth at the season's
  first date when that date has a row, the raw depth otherwise. For seasons that do
  not overlap, a row whose \<open>corrected_sd\<close> is \<open>v\<close> ends with snow depth \<open>v\<close> when
  \<open>v\<close> is not negative, and with all three fields missing when it is.
\<close>

theorem negative_zeroed_depth:
  assumes "windows_disjoint ws" and "w \<in> set ws" and "k < length sdf"
    and "season_depth (make_copy tdf sdf) site w (s_idx (sdf ! k)) = Some v"
  shows "snow_depth_cm (correct_for_heave_on ws tdf sdf site ! k) = (if flt v 0 then None else v)
         \<and> (flt v 0 \<longrightarrow>
               snow_sub_heave (correct_for_heave_on ws tdf sdf site ! k) = None
               \<and> heave_cm (correct_for_heave_on ws tdf sdf site ! k) = None)"
proof -
  obtain d where d: "season_heave (make_copy tdf sdf) site w (s_idx (sdf ! k)) = Some d"
    using assms(4) season_depth_none [of "make_copy tdf sdf" site w "s_idx (sdf ! k)"]
      season_heave_none [of "make_copy tdf sdf" site w "s_idx (sdf ! k)"]
    by (cases "season_heave (make_copy tdf sdf) site w (s_idx (sdf ! k))") auto
  show ?thesis
    using assms(3)
    by (simp add: correct_for_heave_on_rows heave_final_inside [OF assms(1,2,4) d] drop_negative_def)
qed

lemma find_idx_map:
  assumes "\<And>r. s_idx (F r) = s_idx r"
  shows "find (\<lambda>r. s_idx r = k) (map F xs) = map_option F (find (\<lambda>r. s_idx r = k) xs)"
  by (induction xs) (simp_all add: assms)

lemma rebase_twice:
  "fsub (drop_negative (fsub a b)) (drop_negative (fsub b b)) = drop_negative (fsub a b)"
  by (cases a; cases b) (simp_all add: fsub_def drop_negative_def flt_def)

lemma season_heave_some:
  assumes "season_depth sdf_copy site w k = Some v"
  shows "\<exists>d. season_heave sdf_copy site w k = Some d"
  using assms season_depth_none [of sdf_copy site w k] season_heave_none [of sdf_copy site w k]
  by (cases "season_heave sdf_copy site w k") auto

lemma season_depth_based:
  assumes "in_season site w (w_start w)" and "find (\<lambda>r. s_idx r = w_start w) sdf = Some rs"
  shows "season_depth (make_copy tdf sdf) site w k
           = (if in_season site w k
              then map_option (\<lambda>r. fsub (snow_depth_cm r) (snow_depth_cm rs)) (find (\<lambda>r. s_idx r = k) sdf)
              else None)"
  using assms by (simp add: season_depth_copy option.map_comp comp_def)

lemma season_depth_raw:
  assumes "\<not> in_season site w (w_start w) \<or> find (\<lambda>r. s_idx r = w_start w) sdf = None"
  shows "season_depth (make_copy tdf sdf) site w k
           = (if in_season site w k
              then map_option snow_depth_cm (find (\<lambda>r. s_idx r = k) sdf)
              else None)"
  using assms by (auto simp: season_depth_copy)

lemma tilt_lookup_idx:
  assumes "\<And>r. s_idx (F r) = s_idx r"
  shows "map_option (\<lambda>r. case map_of tdf (s_idx r) of None \<Rightarrow> None | Some v \<Rightarrow> v)
           (find (\<lambda>r. s_idx r = j) (map F sdf))
         = map_option (\<lambda>r. case map_of tdf (s_idx r) of None \<Rightarrow> None | Some v \<Rightarrow> v)
           (find (\<lambda>r. s_idx r = j) sdf)"
  by (simp add: find_idx_map [of F, OF assms] option.map_comp comp_def assms)

lemma once_depth:
  assumes "windows_disjoint ws" and "w \<in> set ws"
    and "find (\<lambda>r. s_idx r = k) sdf = Some r"
    and "season_depth sdf_copy site w k = Some v"
  shows "snow_depth_cm (heave_final sdf_copy site ws r) = drop_negative v"
proof -
  have k: "s_idx r = k"
    using find_idx [OF assms(3)] by simp
  obtain d where "season_heave sdf_copy site w k = Some d"
    using season_heave_some [OF assms(4)] by blast
  then show ?thesis
    using heave_final_inside [OF assms(1,2), of sdf_copy site r v d] assms(4) k by simp
qed

lemma second_depth:
  assumes "windows_disjoint ws" and "w \<in> set ws"
    and "season_depth (make_copy tdf sdf) site w k = Some v"
  shows "season_depth (make_copy tdf (map (heave_final (make_copy tdf sdf) site ws) sdf)) site w k
           = Some (drop_negative v)"
proof -
  let ?cx = "make_copy tdf sdf"
  let ?F = "heave_final ?cx site ws"
  have ink: "in_season site w k" and "k \<in> c_idx ` set ?cx"
    using assms(3) season_depth_none [of ?cx site w k] by auto
  then obtain r where r: "find (\<lambda>r. s_idx r = k) sdf = Some r"
    by (cases "find (\<lambda>r. s_idx r = k) sdf") (auto simp: find_None_iff copy_idx)
  have Fr: "snow_depth_cm (?F r) = drop_negative v"
    by (rule once_depth [OF assms(1,2) r assms(3)])
  have fm: "find (\<lambda>r. s_idx r = j) (map ?F sdf) = map_option ?F (find (\<lambda>r. s_idx r = j) sdf)" for j
    by (rule find_idx_map) simp
  show ?thesis
  proof (cases "in_season site w (w_start w) \<and> find (\<lambda>r. s_idx r = w_start w) sdf \<noteq> None")
    case False
    then have raw: "\<not> in_season site w (w_start w) \<or> find (\<lambda>r. s_idx r = w_start w) sdf = None"
      by simp
    then have raw2: "\<not> in_season site w (w_start w)
        \<or> find (\<lambda>r. s_idx r = w_start w) (map ?F sdf) = None"
      by (auto simp: fm)
    have "v = snow_depth_cm r"
      using assms(3) ink r by (simp add: season_depth_raw [OF raw])
    then show ?thesis
      using ink r Fr by (simp add: season_depth_raw [OF raw2] fm)
  next
    case True
    then obtain rs where rs: "find (\<lambda>r. s_idx r = w_start w) sdf = Some rs"
      and ins: "in_season site w (w_start w)"
      by auto
    have v: "v = fsub (snow_depth_cm r) (snow_depth_cm rs)"
      using assms(3) ink r by (simp add: season_depth_based [OF ins rs])
    have "season_depth ?cx site w (w_start w) = Some (fsub (snow_depth_cm rs) (snow_depth_cm rs))"
      using rs ins by (simp add: season_depth_based [OF ins rs])
    then have Frs: "snow_depth_cm (?F rs) = drop_negative (fsub (snow_depth_cm rs) (snow_depth_cm rs))"
      by (rule once_depth [OF assms(1,2) rs])
    have rs2: "find (\<lambda>r. s_idx r = w_start w) (map ?F sdf) = Some (?F rs)"
      by (simp add: fm rs)
    show ?thesis
      using ink r by (simp add: season_depth_based [OF ins rs2] fm Fr Frs v rebase_twice)
  qed
qed

lemma second_heave:
  "season_heave (make_copy tdf (map (heave_final sdf_copy site ws) sdf)) site w k
     = season_heave (make_copy tdf sdf) site w k"
  unfolding season_heave_copy
  by (simp only: tilt_lookup_idx [of "heave_final sdf_copy site ws", OF heave_final_idx])

lemma dates:
  "to_datetime 2019 10 5 = 1570233600" "to_datetime 2020 5 23 = 1590192000"
  "to_datetime 2020 10 9 = 1602201600" "to_datetime 2021 5 14 = 1620950400"
  "to_datetime 2021 9 27 = 1632700800" "to_datetime 2022 5 10 = 1652140800"
  "to_datetime 2022 9 27 = 1664236800" "to_datetime 2023 6 1 = 1685577600"
  "to_datetime 2020 4 12 = 1586649600" "to_datetime 2022 7 1 = 1656633600"
  "to_datetime 2022 9 28 = 1664323200" "to_datetime 2022 9 29 = 1664409600"
  by (simp_all add: to_datetime_def days_from_civil_def Let_def)

lemmas heave_eval = correct_for_heave_def correct_for_heave_on_def snow_on_ground_def
  heave_window_def make_copy_def season_def corrected_def loc_label_def series_sub_def
  w_start_def w_end_def w_year_def fsub_def fmul_def flt_def fillna0_def dates Let_def

lemma heave_snow_a_once: "correct_for_heave tilt_a snow_a ''site_1'' = snow_a_once"
  by (simp add: heave_eval snow_a_def tilt_a_def snow_a_once_def)

lemma heave_snow_a_twice: "correct_for_heave tilt_a snow_a_once ''site_1'' = snow_a_twice"
  by (simp add: heave_eval snow_a_twice_def tilt_a_def snow_a_once_def)

lemma heave_snow_b:
  "correct_for_heave [] snow_b ''site_1'' =
     [\<lparr>s_idx = to_datetime 2022 9 27, snow_depth_cm = Some 0, snow_sub_heave = Some 0, heave_cm = None\<rparr>,
      \<lparr>s_idx = to_datetime 2022 9 28, snow_depth_cm = Some 2, snow_sub_heave = Some 2, heave_cm = None\<rparr>]"
  by (simp add: heave_eval snow_b_def)

lemma snow_on_ground_disjoint: "windows_disjoint snow_on_ground"
  by (simp add: windows_disjoint_def snow_on_ground_def w_start_def w_end_def dates)

lemma heave_window_alone:
  assumes "windows_disjoint ws" and "w \<in> set ws" and "k < length sdf"
    and "in_season site w (s_idx (sdf ! k))"
  shows "snow_depth_cm (correct_for_heave_on ws tdf sdf site ! k)
           = snow_depth_cm (correct_for_heave_on [w] tdf sdf site ! k)
         \<and> snow_sub_heave (correct_for_heave_on ws tdf sdf site ! k)
           = snow_sub_heave (correct_for_heave_on [w] tdf sdf site ! k)"
proof -
  let ?cx = "make_copy tdf sdf"
  have "s_idx (sdf ! k) \<in> c_idx ` set ?cx"
    using assms(3) by (simp add: copy_idx)
  then obtain v where v: "season_depth ?cx site w (s_idx (sdf ! k)) = Some v"
    using assms(4) season_depth_none [of ?cx site w "s_idx (sdf ! k)"] by auto
  obtain d where d: "season_heave ?cx site w (s_idx (sdf ! k)) = Some d"
    using season_heave_some [OF v] by blast
  have one: "windows_disjoint [w]" "w \<in> set [w]"
    by (simp_all add: windows_disjoint_def)
  show ?thesis
    using assms(3)
    by (simp add: correct_for_heave_on_rows heave_final_inside [OF assms(1,2) v d]
        heave_final_inside [OF one v d])
qed

text \<open>
  Claim C3, as the code has it. For a frame with unique labels and a non-empty table
  of seasons that do not overlap: the correction keeps the rows and their labels; the
  seasons are processed independently as far as \<open>snow_depth_cm\<close> and
  \<open>snow_sub_heave\<close> go (a row inside a season gets the values that the correction
  over that season alone gives it); a row outside every season has all three output
  fields missing; and correcting the corrected frame again leaves \<open>snow_depth_cm\<close>
  and \<open>snow_sub_heave\<close> of every row as they were, and \<open>heave_cm\<close> too on every row
  whose snow depth is not missing.
\<close>

theorem heave_twice:
  assumes "distinct (map s_idx sdf)" and "windows_disjoint ws" and "ws \<noteq> []"
    and "k < length sdf"
  shows "length (correct_for_heave_on ws tdf sdf site) = length sdf
         \<and> length (correct_for_heave_on ws tdf (correct_for_heave_on ws tdf sdf site) site) = length sdf
         \<and> s_idx (correct_for_heave_on ws tdf (correct_for_heave_on ws tdf sdf site) site ! k)
             = s_idx (sdf ! k)
         \<and> snow_depth_cm (correct_for_heave_on ws tdf (correct_for_heave_on ws tdf sdf site) site ! k)
             = snow_depth_cm (correct_for_heave_on ws tdf sdf site ! k)
         \<and> snow_sub_heave (correct_for_heave_on ws tdf (correct_for_heave_on ws tdf sdf site) site ! k)
             = snow_sub_heave (correct_for_heave_on ws tdf sdf site ! k)
         \<and> (snow_depth_cm (correct_for_heave_on ws tdf sdf site ! k) \<noteq> None \<longrightarrow>
               heave_cm (correct_for_heave_on ws tdf (correct_for_heave_on ws tdf sdf site) site ! k)
                 = heave_cm (correct_for_heave_on ws tdf sdf site ! k))
         \<and> ((\<forall>w\<in>set ws. \<not> in_season site w (s_idx (sdf ! k))) \<longrightarrow>
               snow_depth_cm (correct_for_heave_on ws tdf sdf site ! k) = None
               \<and> snow_sub_heave (correct_for_heave_on ws tdf sdf site ! k) = None
               \<and> heave_cm (correct_for_heave_on ws tdf sdf site ! k) = None)
         \<and> (\<forall>w\<in>set ws. in_season site w (s_idx (sdf ! k)) \<longrightarrow>
               snow_depth_cm (correct_for_heave_on ws tdf sdf site ! k)
                 = snow_depth_cm (correct_for_heave_on [w] tdf sdf site ! k)
               \<and> snow_sub_heave (correct_for_heave_on ws tdf sdf site ! k)
                 = snow_sub_heave (correct_for_heave_on [w] tdf sdf site ! k))"
proof -
  let ?cx = "make_copy tdf sdf"
  let ?F = "heave_final ?cx site ws"
  let ?cy = "make_copy tdf (map ?F sdf)"
  let ?G = "heave_final ?cy site ws"
  let ?r = "sdf ! k"
  have once: "correct_for_heave_on ws tdf sdf site = map ?F sdf"
    by (rule correct_for_heave_on_rows)
  have twice: "correct_for_heave_on ws tdf (map ?F sdf) site = map ?G (map ?F sdf)"
    by (rule correct_for_heave_on_rows)
  have nth1: "map ?F sdf ! k = ?F ?r" and nth2: "map ?G (map ?F sdf) ! k = ?G (?F ?r)"
    using assms(4) by simp_all
  have idx_y: "c_idx ` set ?cy = c_idx ` set ?cx"
    by (simp add: copy_idx image_image)
  have main: "snow_depth_cm (?G (?F ?r)) = snow_depth_cm (?F ?r)
        \<and> snow_sub_heave (?G (?F ?r)) = snow_sub_heave (?F ?r)
        \<and> (snow_depth_cm (?F ?r) \<noteq> None \<longrightarrow> heave_cm (?G (?F ?r)) = heave_cm (?F ?r))
        \<and> ((\<forall>w\<in>set ws. \<not> in_season site w (s_idx ?r)) \<longrightarrow>
               snow_depth_cm (?F ?r) = None \<and> snow_sub_heave (?F ?r) = None \<and> heave_cm (?F ?r) = None)"
  proof (cases "\<forall>w\<in>set ws. season_depth ?cx site w (s_idx ?r) = None")
    case True
    have F: "?F ?r = ?r\<lparr>snow_depth_cm := None, snow_sub_heave := None, heave_cm := None\<rparr>"
      using True assms(3) by (rule heave_final_outside)
    have "\<forall>w\<in>set ws. season_depth ?cy site w (s_idx (?F ?r)) = None"
      using True unfolding season_depth_none idx_y by simp
    then have "?G (?F ?r) = (?F ?r)\<lparr>snow_depth_cm := None, snow_sub_heave := None, heave_cm := None\<rparr>"
      using assms(3) by (rule heave_final_outside)
    then show ?thesis
      by (simp add: F)
  next
    case False
    then obtain w v where w: "w \<in> set ws" and v: "season_depth ?cx site w (s_idx ?r) = Some v"
      by auto
    obtain d where d: "season_heave ?cx site w (s_idx ?r) = Some d"
      using season_heave_some [OF v] by blast
    have F: "?F ?r = ?r\<lparr>snow_depth_cm := drop_negative v,
               snow_sub_heave := (if flt v 0 then None else fsub v (fillna0 (fmul d 0.1))),
               heave_cm := (if w = last ws \<and> \<not> flt v 0 then fmul d 0.1 else None)\<rparr>"
      by (rule heave_final_inside [OF assms(2) w v d])
    have v2: "season_depth ?cy site w (s_idx (?F ?r)) = Some (drop_negative v)"
      using second_depth [OF assms(2) w v] by simp
    have d2: "season_heave ?cy site w (s_idx (?F ?r)) = Some d"
      using d by (simp add: second_heave)
    have G: "?G (?F ?r) = (?F ?r)\<lparr>snow_depth_cm := drop_negative (drop_negative v),
               snow_sub_heave := (if flt (drop_negative v) 0 then None
                                  else fsub (drop_negative v) (fillna0 (fmul d 0.1))),
               heave_cm := (if w = last ws \<and> \<not> flt (drop_negative v) 0 then fmul d 0.1 else None)\<rparr>"
      by (rule heave_final_inside [OF assms(2) w v2 d2])
    have ins: "in_season site w (s_idx ?r)"
      using v season_depth_none [of ?cx site w "s_idx ?r"] by auto
    have sub: "fsub (drop_negative v) c = (if flt v 0 then None else fsub v c)" for c
      by (simp add: drop_negative_def fsub_def)
    have none: "flt v 0 \<Longrightarrow> drop_negative v = None"
      and some: "drop_negative v \<noteq> None \<Longrightarrow> \<not> flt v 0"
      by (auto simp: drop_negative_def split: if_splits)
    have fF: "snow_depth_cm (?F ?r) = drop_negative v"
      "snow_sub_heave (?F ?r) = (if flt v 0 then None else fsub v (fillna0 (fmul d 0.1)))"
      "heave_cm (?F ?r) = (if w = last ws \<and> \<not> flt v 0 then fmul d 0.1 else None)"
      by (simp_all add: F)
    have fG: "snow_depth_cm (?G (?F ?r)) = drop_negative v"
      "snow_sub_heave (?G (?F ?r)) = (if flt v 0 then None else fsub v (fillna0 (fmul d 0.1)))"
      "heave_cm (?G (?F ?r)) = (if w = last ws then fmul d 0.1 else None)"
      by (simp_all add: G sub)
    show ?thesis
      unfolding fF fG using w ins some by auto
  qed
  have alone: "\<forall>w\<in>set ws. in_season site w (s_idx (sdf ! k)) \<longrightarrow>
               snow_depth_cm (correct_for_heave_on ws tdf sdf site ! k)
                 = snow_depth_cm (correct_for_heave_on [w] tdf sdf site ! k)
               \<and> snow_sub_heave (correct_for_heave_on ws tdf sdf site ! k)
                 = snow_sub_heave (correct_for_heave_on [w] tdf sdf site ! k)"
    using heave_window_alone [OF assms(2) _ assms(4)] by blast
  have rest: "length (correct_for_heave_on ws tdf sdf site) = length sdf
         \<and> length (correct_for_heave_on ws tdf (correct_for_heave_on ws tdf sdf site) site) = length sdf
         \<and> s_idx (correct_for_heave_on ws tdf (correct_for_heave_on ws tdf sdf site) site ! k)
             = s_idx (sdf ! k)
         \<and> snow_depth_cm (correct_for_heave_on ws tdf (correct_for_heave_on ws tdf sdf site) site ! k)
             = snow_depth_cm (correct_for_heave_on ws tdf sdf site ! k)
         \<and> snow_sub_heave (correct_for_heave_on ws tdf (correct_for_heave_on ws tdf sdf site) site ! k)
             = snow_sub_heave (correct_for_heave_on ws tdf sdf site ! k)
         \<and> (snow_depth_cm (correct_for_heave_on ws tdf sdf site ! k) \<noteq> None \<longrightarrow>
               heave_cm (correct_for_heave_on ws tdf (correct_for_heave_on ws tdf sdf site) site ! k)
                 = heave_cm (correct_for_heave_on ws tdf sdf site ! k))
         \<and> ((\<forall>w\<in>set ws. \<not> in_season site w (s_idx (sdf ! k))) \<longrightarrow>
               snow_depth_cm (correct_for_heave_on ws tdf sdf site ! k) = None
               \<and> snow_sub_heave (correct_for_heave_on ws tdf sdf site ! k) = None
               \<and> heave_cm (correct_for_heave_on ws tdf sdf site ! k) = None)"
    unfolding once twice nth1 nth2 using main by simp
  show ?thesis
    using rest alone by (elim conjE) (intro conjI; assumption)
qed

lemma window_2022: "(''2022'', to_datetime 2022 9 27, to_datetime 2023 6 1) \<in> set snow_on_ground"
  by (simp add: snow_on_ground_def)

theorem heave_twice_witness:
  "correct_for_heave tilt_a snow_a ''site_1'' = snow_a_once
   \<and> snow_depth_cm (correct_for_heave tilt_a (correct_for_heave tilt_a snow_a ''site_1'') ''site_1'' ! 1)
       = Some 0
   \<and> snow_sub_heave (correct_for_heave tilt_a (correct_for_heave tilt_a snow_a ''site_1'') ''site_1'' ! 1)
       = Some 0
   \<and> heave_cm (correct_for_heave tilt_a (correct_for_heave tilt_a snow_a ''site_1'') ''site_1'' ! 1)
       = Some 0
   \<and> snow_depth_cm (correct_for_heave_on [(''2022'', to_datetime 2022 9 27, to_datetime 2023 6 1)]
                       tilt_a snow_a ''site_1'' ! 1) = Some 0
   \<and> snow_sub_heave (correct_for_heave_on [(''2022'', to_datetime 2022 9 27, to_datetime 2023 6 1)]
                       tilt_a snow_a ''site_1'' ! 1) = Some 0"
proof -
  have d: "distinct (map s_idx snow_a)"
    by (simp add: snow_a_def dates)
  have n: "snow_on_ground \<noteq> []"
    by (simp add: snow_on_ground_def)
  have k: "1 < length snow_a"
    by (simp add: snow_a_def)
  have s: "in_season ''site_1'' (''2022'', to_datetime 2022 9 27, to_datetime 2023 6 1) (s_idx (snow_a ! 1))"
    by (simp add: in_season_def snow_a_def w_start_def w_end_def w_year_def dates)
  note t = heave_twice [OF d snow_on_ground_disjoint n k, of tilt_a "''site_1''"]
  have a: "snow_depth_cm (correct_for_heave_on [(''2022'', to_datetime 2022 9 27, to_datetime 2023 6 1)]
                       tilt_a snow_a ''site_1'' ! 1) = snow_depth_cm (correct_for_heave tilt_a snow_a ''site_1'' ! 1)
        \<and> snow_sub_heave (correct_for_heave_on [(''2022'', to_datetime 2022 9 27, to_datetime 2023 6 1)]
                       tilt_a snow_a ''site_1'' ! 1) = snow_sub_heave (correct_for_heave tilt_a snow_a ''site_1'' ! 1)"
    using t window_2022 s by (simp add: correct_for_heave_def)
  show ?thesis
    using t a
    by (simp add: correct_for_heave_def [symmetric] heave_snow_a_once) (simp add: snow_a_once_def)
qed

text \<open>
  The claim as stated fails: on a row that was invalidated for a negative snow depth,
  the first pass leaves \<open>heave_cm\<close> missing and the second pass, which finds a
  missing snow depth instead of a negative one, writes the heave.
\<close>

theorem heave_twice_differs:
  "correct_for_heave tilt_a (correct_for_heave tilt_a snow_a ''site_1'') ''site_1''
     \<noteq> correct_for_heave tilt_a snow_a ''site_1''"
  by (simp add: heave_snow_a_once heave_snow_a_twice) (simp add: snow_a_once_def snow_a_twice_def)

theorem negative_zeroed_depth_witness:
  "snow_depth_cm (correct_for_heave tilt_a snow_a ''site_1'' ! 2) = None
   \<and> snow_sub_heave (correct_for_heave tilt_a snow_a ''site_1'' ! 2) = None
   \<and> heave_cm (correct_for_heave tilt_a snow_a ''site_1'' ! 2) = None"
proof -
  have k: "2 < length snow_a"
    by (simp add: snow_a_def)
  have v: "season_depth (make_copy tilt_a snow_a) ''site_1''
             (''2022'', to_datetime 2022 9 27, to_datetime 2023 6 1) (s_idx (snow_a ! 2))
           = Some (Some (- 2))"
    by (simp add: season_depth_def heave_eval snow_a_def tilt_a_def)
  show ?thesis
    using negative_zeroed_depth [OF snow_on_ground_disjoint window_2022 k v]
    by (simp add: correct_for_heave_def [symmetric] flt_def)
qed

text \<open>
  The claim as stated fails: with a raw depth of -5 at the season's first date and of
  -3 the day after, the second row is re-baselined to 2 and kept.
\<close>

theorem negative_raw_depth_kept:
  "snow_depth_cm (snow_b ! 1) = Some (- 3)
   \<and> snow_depth_cm (correct_for_heave [] snow_b ''site_1'' ! 1) = Some 2
   \<and> snow_sub_heave (correct_for_heave [] snow_b ''site_1'' ! 1) = Some 2"
  by (simp add: heave_snow_b) (simp add: snow_b_def)

text \<open>
  Claim C8, at a frame that has a row at the first date of the 2022 season, holding a
  missing snow depth (what \<open>resample('D').mean()\<close> makes of a day without
  readings). The lookup finds the row and raises nothing, so the \<open>except\<close> branch
  is not taken: the missing depth is subtracted from every depth of the season, and
  the snow depth and \<open>snow_sub_heave\<close> of the whole season come out missing, where the
  raw depths are 3 and 4. Without that row the raw depths are used.
\<close>

theorem heave_nan_start:
  "map snow_depth_cm snow_d = [None, Some 3, Some 4]
   \<and> map snow_depth_cm (correct_for_heave tilt_a snow_d ''site_1'') = [None, None, None]
   \<and> map snow_sub_heave (correct_for_heave tilt_a snow_d ''site_1'') = [None, None, None]
   \<and> map snow_depth_cm (correct_for_heave tilt_a (tl snow_d) ''site_1'') = [Some 3, Some 4]"
  by (simp add: heave_eval snow_d_def tilt_a_def)

section \<open>The concatenation of the input files: results\<close>

lemma first_row_append: "first_row (first_row (xs @ ys) @ zs) = first_row (xs @ ys @ zs)"
  by (cases xs; cases ys) (simp_all add: first_row_def)

lemma first_row_simps [simp]:
  "first_row [] = []" "first_row (x # xs) = [x]" "first_row (first_row xs) = first_row xs"
  by (simp_all add: first_row_def)

lemma drop_duplicated_from_key:
  "filter (\<lambda>r. fst r = t) (map fst (filter (\<lambda>(r, dup). \<not> dup) (zip df (duplicated_from seen (map fst df)))))
     = (if t \<in> set seen then [] else first_row (filter (\<lambda>r. fst r = t) df))"
  by (induction df arbitrary: seen) auto

lemma drop_duplicated_key:
  "filter (\<lambda>r. fst r = t) (drop_duplicated df) = first_row (filter (\<lambda>r. fst r = t) df)"
  by (simp add: drop_duplicated_def duplicated_def drop_duplicated_from_key)

lemma sonar_fold_key:
  "filter (\<lambda>r. fst r = t) (foldl (\<lambda>df concat. drop_duplicated (df @ concat)) df frames)
     = (if frames = [] then filter (\<lambda>r. fst r = t) df
        else first_row (filter (\<lambda>r. fst r = t) df @ concat (map (filter (\<lambda>r. fst r = t)) frames)))"
proof (induction frames arbitrary: df)
  case Nil
  show ?case by simp
next
  case (Cons c frames)
  show ?case
    by (simp add: Cons.IH drop_duplicated_key first_row_append)
qed


lemma tilt_fold_stable:
  assumes "\<And>xs k. filter (\<lambda>r. fst r = k) (sort_rows xs) = filter (\<lambda>r. fst r = k) xs"
  shows "filter (\<lambda>r. fst r = t) (foldl (\<lambda>df concat. drop_duplicated (sort_rows (df @ concat))) df frames)
     = (if frames = [] then filter (\<lambda>r. fst r = t) df
        else first_row (filter (\<lambda>r. fst r = t) df @ concat (map (filter (\<lambda>r. fst r = t)) frames)))"
proof (induction frames arbitrary: df)
  case Nil
  show ?case by simp
next
  case (Cons c frames)
  show ?case
    by (simp add: Cons.IH drop_duplicated_key first_row_append assms)
qed

lemma concat_tilt_two:
  "filter (\<lambda>r. fst r = t) (concat_tilt sort_rows [f1, f2])
     = first_row (filter (\<lambda>r. fst r = t) (sort_rows (drop_duplicated (sort_rows f1) @ f2)))"
  by (simp add: concat_tilt_def drop_duplicated_key)

lemma first_row_cases: "first_row xs = [] \<and> xs = [] \<or> (\<exists>x. first_row xs = [x] \<and> x \<in> set xs)"
  by (cases xs) simp_all

lemma drop_duplicated_set: "set (drop_duplicated df) \<subseteq> set df"
proof
  fix r assume "r \<in> set (drop_duplicated df)"
  then have "r \<in> set (filter (\<lambda>x. fst x = fst r) (drop_duplicated df))"
    by simp
  then have "r \<in> set (first_row (filter (\<lambda>x. fst x = fst r) df))"
    by (simp only: drop_duplicated_key)
  then show "r \<in> set df"
    using first_row_cases [of "filter (\<lambda>x. fst x = fst r) df"] by auto
qed

text \<open>
  Whatever the order in which the sort leaves the rows, as long as it returns the
  rows it was given, \<open>concat_tilt\<close> returns rows of the files, exactly one for each
  label that occurs in a file.
\<close>

lemma concat_tilt_one_row:
  assumes "\<And>xs. set (sort_rows xs) = set xs"
    and "frames \<noteq> []"
  shows "set (concat_tilt sort_rows frames) \<subseteq> (\<Union>f\<in>set frames. set f)
         \<and> (\<forall>t \<in> fst ` (\<Union>f\<in>set frames. set f).
               \<exists>r \<in> (\<Union>f\<in>set frames. set f).
                 fst r = t \<and> filter (\<lambda>r. fst r = t) (concat_tilt sort_rows frames) = [r])"
  using assms(2)
proof (induction frames rule: rev_induct)
  case Nil
  then show ?case by simp
next
  case (snoc c frames)
  let ?X = "foldl (\<lambda>df concat. drop_duplicated (sort_rows (df @ concat))) [] frames"
  let ?U = "\<Union>f\<in>set frames. set f"
  have X: "set ?X \<subseteq> ?U \<and> (\<forall>t \<in> fst ` ?U. t \<in> fst ` set ?X)"
  proof (cases "frames = []")
    case True
    then show ?thesis by simp
  next
    case False
    have "\<forall>t \<in> fst ` ?U. t \<in> fst ` set ?X"
    proof
      fix t assume "t \<in> fst ` ?U"
      then obtain r where "filter (\<lambda>r. fst r = t) (concat_tilt sort_rows frames) = [r]" "fst r = t"
        using snoc.IH [OF False] by blast
      then have "r \<in> set (filter (\<lambda>r. fst r = t) ?X)"
        by (simp add: concat_tilt_def)
      then show "t \<in> fst ` set ?X"
        by force
    qed
    then show ?thesis
      using snoc.IH [OF False] by (simp add: concat_tilt_def)
  qed
  have step: "concat_tilt sort_rows (frames @ [c]) = drop_duplicated (sort_rows (?X @ c))"
    by (simp add: concat_tilt_def)
  have sub: "set (concat_tilt sort_rows (frames @ [c])) \<subseteq> set ?X \<union> set c"
    unfolding step using drop_duplicated_set [of "sort_rows (?X @ c)"] by (simp add: assms(1))
  have one: "\<exists>r \<in> set ?X \<union> set c.
               fst r = t \<and> filter (\<lambda>r. fst r = t) (concat_tilt sort_rows (frames @ [c])) = [r]"
    if "t \<in> fst ` (set ?X \<union> set c)" for t
  proof -
    let ?S = "filter (\<lambda>r. fst r = t) (sort_rows (?X @ c))"
    have "set ?S \<noteq> {}"
      using that by (auto simp add: assms(1) filter_empty_conv)
    then have "?S \<noteq> []"
      by (simp del: set_filter)
    then obtain x where x: "first_row ?S = [x]" "x \<in> set ?S"
      using first_row_cases [of ?S] by blast
    then show ?thesis
      unfolding step by (auto simp add: drop_duplicated_key assms(1))
  qed
  show ?case
  proof (intro conjI ballI)
    show "set (concat_tilt sort_rows (frames @ [c])) \<subseteq> (\<Union>f\<in>set (frames @ [c]). set f)"
      using sub X by auto
  next
    fix t assume "t \<in> fst ` (\<Union>f\<in>set (frames @ [c]). set f)"
    then have "t \<in> fst ` ?U \<or> t \<in> fst ` set c"
      by auto
    then have "t \<in> fst ` set ?X \<or> t \<in> fst ` set c"
      using X by blast
    then have "t \<in> fst ` (set ?X \<union> set c)"
      by (simp only: image_Un Un_iff)
    then show "\<exists>r \<in> (\<Union>f\<in>set (frames @ [c]). set f).
                 fst r = t \<and> filter (\<lambda>r. fst r = t) (concat_tilt sort_rows (frames @ [c])) = [r]"
      using one [of t] X by auto
  qed
qed

lemma first_file_rows:
  assumes "i < length frames" and "map_of (frames ! i) t = Some v"
    and "\<forall>j<i. t \<notin> fst ` set (frames ! j)"
  shows "first_row (concat (map (filter (\<lambda>r. fst r = t)) frames)) = [(t, v)]"
  using assms
proof (induction frames arbitrary: i)
  case Nil
  then show ?case by simp
next
  case (Cons c frames)
  show ?case
  proof (cases i)
    case 0
    have "\<exists>rest. filter (\<lambda>r. fst r = t) xs = (t, v) # rest" if "map_of xs t = Some v" for xs :: "('a \<times> 'b) list"
      using that by (induction xs) (auto split: if_splits)
    then show ?thesis
      using Cons.prems 0 by fastforce
  next
    case (Suc n)
    have "filter (\<lambda>r. fst r = t) c = []"
      using Cons.prems(3) Suc by (fastforce simp: filter_empty_conv)
    moreover have "t \<notin> fst ` set (frames ! j)" if "j < n" for j
      using Cons.prems(3) [rule_format, of "Suc j"] that Suc by simp
    then have "first_row (concat (map (filter (\<lambda>r. fst r = t)) frames)) = [(t, v)]"
      using Cons.prems(1,2) Suc by (intro Cons.IH [of n]) simp_all
    ultimately show ?thesis
      by simp
  qed
qed

text \<open>
  First seen wins in \<open>concat_sonar\<close>, and in \<open>concat_tilt\<close> for a sort that keeps
  rows of equal labels in their order: when the label \<open>t\<close> occurs in the \<open>i\<close>-th file
  with the columns \<open>v\<close> (on its first row of that label) and in no file before it, the
  merged frame has exactly one row of label \<open>t\<close>, with the columns \<open>v\<close>, whatever the
  later files hold.
\<close>

theorem merge_first_seen:
  assumes "i < length frames" and "map_of (frames ! i) t = Some v"
    and "\<forall>j<i. t \<notin> fst ` set (frames ! j)"
  shows "filter (\<lambda>r. fst r = t) (concat_sonar frames) = [(t, v)]
         \<and> ((\<forall>xs k. filter (\<lambda>r. fst r = k) (sort_rows xs) = filter (\<lambda>r. fst r = k) xs) \<longrightarrow>
               filter (\<lambda>r. fst r = t) (concat_tilt sort_rows frames) = [(t, v)])"
proof -
  have "frames \<noteq> []"
    using assms(1) by auto
  then show ?thesis
    using first_file_rows [OF assms]
    by (simp add: concat_sonar_def concat_tilt_def sonar_fold_key tilt_fold_stable)
qed

theorem merge_first_seen_witness:
  "filter (\<lambda>r. fst r = 2) (concat_sonar merge_example) = [(2, ''a'')]
   \<and> filter (\<lambda>r. fst r = 1) (concat_tilt (sort_key fst) merge_example) = [(1, ''c'')]"
proof -
  have "map_of (merge_example ! 0) 2 = Some ''a''" "map_of (merge_example ! 1) 1 = Some ''c''"
    "\<forall>j<1. (1::int) \<notin> fst ` set (merge_example ! j)"
    by (simp_all add: merge_example_def)
  then show ?thesis
    using merge_first_seen [of 0 merge_example 2 "''a''"]
      merge_first_seen [of 1 merge_example 1 "''c''" "sort_key fst"]
    by (simp add: merge_example_def sort_key_stable)
qed

text \<open>
  Claim C9, at two tilt files with the labels 8 to 12 in common. \<open>concat_sonar\<close>,
  which does not sort, keeps the first file's row of label 8. \<open>concat_tilt\<close> keeps
  the row of label 8 that the sort leaves first, whatever the sort: the first file's
  \<open>(8, 18)\<close> under a sort that keeps rows of equal labels in their order, the second
  file's \<open>(8, 58)\<close> under an ascending sort that does not (here, one that leaves them
  in the reverse order).
\<close>

theorem concat_tilt_sorted_first:
  "filter (\<lambda>r. fst r = 8) (concat_sonar [tilt_file_1, tilt_file_2]) = [(8, 18)]
   \<and> (\<forall>sort_rows.
         filter (\<lambda>r. fst r = 8) (concat_tilt sort_rows [tilt_file_1, tilt_file_2])
           = first_row (filter (\<lambda>r. fst r = 8)
                          (sort_rows (drop_duplicated (sort_rows tilt_file_1) @ tilt_file_2))))
   \<and> filter (\<lambda>r. fst r = 8) (concat_tilt (sort_key fst) [tilt_file_1, tilt_file_2]) = [(8, 18)]
   \<and> filter (\<lambda>r. fst r = 8) (concat_tilt (\<lambda>xs. sort_key fst (rev xs)) [tilt_file_1, tilt_file_2])
       = [(8, 58)]"
proof -
  have "filter (\<lambda>r. fst r = 8) (concat_sonar [tilt_file_1, tilt_file_2]) = [(8, 18)]"
    by code_simp
  moreover have "filter (\<lambda>r. fst r = 8) (concat_tilt (sort_key fst) [tilt_file_1, tilt_file_2]) = [(8, 18)]"
    by code_simp
  moreover have
    "filter (\<lambda>r. fst r = 8) (concat_tilt (\<lambda>xs. sort_key fst (rev xs)) [tilt_file_1, tilt_file_2])
       = [(8, 58)]"
    by code_simp
  ultimately show ?thesis
    by (simp add: concat_tilt_two)
qed

section \<open>The merge with the Environment Canada data: results\<close>

lemma filter_distinct_keys:
  "distinct (map fst xs) \<Longrightarrow>
     filter (\<lambda>m. fst m = k) xs = (case map_of xs k of None \<Rightarrow> [] | Some c \<Rightarrow> [(k, c)])"
proof (induction xs)
  case Nil
  show ?case by simp
next
  case (Cons x xs)
  obtain a b where x: "x = (a, b)"
    by (cases x)
  have "filter (\<lambda>m. fst m = a) xs = []"
    using Cons.prems by (auto simp: x filter_empty_conv)
  then show ?case
    using Cons by (auto simp: x)
qed

lemma getMetData_distinct:
  assumes "distinct (map fst met_df)"
  shows "getMetData idx df met_df = map (\<lambda>r. (r, met_at met_df (idx r))) df"
  by (induction df)
    (simp_all add: getMetData_def filter_distinct_keys [OF assms] met_at_def split: option.splits)

text \<open>
  Claim C10. For reference frames with one row per date, the merge keeps the rows of
  the snow frame and their labels, attaches the reference columns of both stations,
  leaves \<open>snow_sub_heave\<close> and \<open>heave_cm\<close> as they were, and keeps the snow depth
  only where Inuvik's snow on ground is a number: where that is missing (no row for
  the date, or a NaN), the snow depth becomes missing.
\<close>

theorem combine_snow_with_EC_rows:
  assumes "distinct (map fst inuvik)" and "distinct (map fst trailvalley)" and "k < length sdf"
  shows "length (combine_snow_with_EC inuvik trailvalley sdf site) = length sdf
         \<and> m_idx (combine_snow_with_EC inuvik trailvalley sdf site ! k) = s_idx (sdf ! k)
         \<and> cols_x (combine_snow_with_EC inuvik trailvalley sdf site ! k) = met_at inuvik (s_idx (sdf ! k))
         \<and> cols_y (combine_snow_with_EC inuvik trailvalley sdf site ! k) = met_at trailvalley (s_idx (sdf ! k))
         \<and> m_snow_sub_heave (combine_snow_with_EC inuvik trailvalley sdf site ! k) = snow_sub_heave (sdf ! k)
         \<and> m_heave_cm (combine_snow_with_EC inuvik trailvalley sdf site ! k) = heave_cm (sdf ! k)
         \<and> m_snow_depth_cm (combine_snow_with_EC inuvik trailvalley sdf site ! k)
             = (if snow_on_grnd (met_at inuvik (s_idx (sdf ! k))) = None then None
                else snow_depth_cm (sdf ! k))"
  using assms(3)
  by (simp add: combine_snow_with_EC_def getMetData_distinct [OF assms(1)]
      getMetData_distinct [OF assms(2)] Let_def isna_def)

theorem combine_snow_with_EC_rows_witness:
  "length (combine_snow_with_EC inuvik_example trailvalley_example snow_a ''site_1'') = 3
   \<and> m_snow_depth_cm (combine_snow_with_EC inuvik_example trailvalley_example snow_a ''site_1'' ! 1) = Some 5
   \<and> m_snow_depth_cm (combine_snow_with_EC inuvik_example trailvalley_example snow_a ''site_1'' ! 2) = None
   \<and> m_snow_depth_cm (combine_snow_with_EC inuvik_example trailvalley_example snow_a ''site_1'' ! 0) = None"
proof -
  have i: "distinct (map fst inuvik_example)" and t: "distinct (map fst trailvalley_example)"
    by (simp_all add: inuvik_example_def trailvalley_example_def dates)
  have k: "0 < length snow_a" "1 < length snow_a" "2 < length snow_a"
    by (simp_all add: snow_a_def)
  show ?thesis
    using combine_snow_with_EC_rows [OF i t k(1), of "''site_1''"]
      combine_snow_with_EC_rows [OF i t k(2), of "''site_1''"]
      combine_snow_with_EC_rows [OF i t k(3), of "''site_1''"]
    by (simp add: met_at_def nan_cols_def inuvik_example_def snow_a_def dates)
qed

end
